theory Spec2Isabelle
  imports Complex_Main "HOL-Library.AList" "HOL-Library.Log_Nat"
begin

section \<open>JavaScript values\<close>

text \<open>
  The pipeline reads call records, tool-call arguments, success evaluations and the
  language model's reply as JSON. Where the code inspects such a payload dynamically
  (property reads, truthiness, \<open>||\<close>, \<open>===\<close>), the payload is a \<open>jsval\<close>.
  An object is the list of its properties; a property read takes the first binding of a
  key. A number is the rational that its double denotes: JSON has no NaN and no
  infinities.
\<close>

datatype jsval =
    JUndefined
  | JNull
  | JBool bool
  | JNum rat
  | JStr string
  | JArr "jsval list"
  | JObj "(string \<times> jsval) list"

datatype error = TypeError | SyntaxError | RangeError | RequestError

text \<open>Truthiness, as \<open>Boolean(v)\<close>, \<open>if (v)\<close> and \<open>!v\<close> read it.\<close>

fun truthy :: "jsval \<Rightarrow> bool" where
  "truthy JUndefined = False"
| "truthy JNull = False"
| "truthy (JBool b) = b"
| "truthy (JNum n) = (n \<noteq> 0)"
| "truthy (JStr s) = (s \<noteq> [])"
| "truthy (JArr xs) = True"
| "truthy (JObj kvs) = True"

text \<open>\<open>a || b\<close>.\<close>

definition jor :: "jsval \<Rightarrow> jsval \<Rightarrow> jsval" where
  "jor a b = (if truthy a then a else b)"

text \<open>
  \<open>v.k\<close> for one of the keys the code reads (none of them a built-in property of
  strings, numbers or arrays): a TypeError on \<open>undefined\<close> and \<open>null\<close>,
  \<open>undefined\<close> on a missing key and on every primitive and array.
\<close>

fun getProp :: "jsval \<Rightarrow> string \<Rightarrow> error + jsval" where
  "getProp JUndefined k = Inl TypeError"
| "getProp JNull k = Inl TypeError"
| "getProp (JObj kvs) k = Inr (case map_of kvs k of None \<Rightarrow> JUndefined | Some v \<Rightarrow> v)"
| "getProp v k = Inr JUndefined"

section \<open>Strings\<close>

text \<open>
  Strings are byte strings; \<open>toLowerCase\<close> and the character classes are the ASCII ones.
\<close>

definition toLowerChar :: "char \<Rightarrow> char" where
  "toLowerChar c =
     (case map_of (zip ''ABCDEFGHIJKLMNOPQRSTUVWXYZ'' ''abcdefghijklmnopqrstuvwxyz'') c of
        None \<Rightarrow> c
      | Some l \<Rightarrow> l)"

definition toLowerCase :: "string \<Rightarrow> string" where
  "toLowerCase s = map toLowerChar s"

fun startsWith :: "string \<Rightarrow> string \<Rightarrow> bool" where
  "startsWith s [] = True"
| "startsWith [] (p # ps) = False"
| "startsWith (c # cs) (p # ps) = (c = p \<and> startsWith cs ps)"

text \<open>\<open>s.includes(sub)\<close>.\<close>

fun str_includes :: "string \<Rightarrow> string \<Rightarrow> bool" where
  "str_includes [] sub = (sub = [])"
| "str_includes (c # cs) sub = (startsWith (c # cs) sub \<or> str_includes cs sub)"

definition isSpace :: "char \<Rightarrow> bool" where
  "isSpace c = (c \<in> set [CHR '' '', CHR 0x09, CHR 0x0A, CHR 0x0B, CHR 0x0C, CHR 0x0D])"

definition trim :: "string \<Rightarrow> string" where
  "trim s = rev (dropWhile isSpace (rev (dropWhile isSpace s)))"

text \<open>The class \<open>\w\<close> of a regular expression.\<close>

definition isWordChar :: "char \<Rightarrow> bool" where
  "isWordChar c =
     (c \<in> set ''abcdefghijklmnopqrstuvwxyzABCDEFGHIJKLMNOPQRSTUVWXYZ0123456789_'')"

text \<open>\<open>s.match(/\w+/)\<close> is truthy when some character of \<open>s\<close> is a word character.\<close>

definition matchesWord :: "string \<Rightarrow> bool" where
  "matchesWord s = list_ex isWordChar s"

text \<open>
  \<open>v.toLowerCase()\<close> where \<open>v\<close> is a string or truthy: a TypeError unless \<open>v\<close> is
  a string.
\<close>

fun js_toLowerCase :: "jsval \<Rightarrow> error + string" where
  "js_toLowerCase (JStr s) = Inr (toLowerCase s)"
| "js_toLowerCase v = Inl TypeError"

text \<open>\<open>Math.round\<close> rounds a half up.\<close>

definition math_round :: "rat \<Rightarrow> int" where
  "math_round x = \<lfloor>x + 1 / 2\<rfloor>"

section \<open>Array methods with callbacks that may throw\<close>

text \<open>\<open>xs.map(f)\<close>, or a loop that pushes \<open>f(x)\<close>: the first exception ends it.\<close>

fun mapM :: "('a \<Rightarrow> error + 'b) \<Rightarrow> 'a list \<Rightarrow> error + 'b list" where
  "mapM f [] = Inr []"
| "mapM f (x # xs) =
     (case f x of
        Inl e \<Rightarrow> Inl e
      | Inr y \<Rightarrow> (case mapM f xs of Inl e \<Rightarrow> Inl e | Inr ys \<Rightarrow> Inr (y # ys)))"

text \<open>\<open>xs.find(p)\<close> and \<open>xs.some(p)\<close>.\<close>

fun findM :: "('a \<Rightarrow> error + bool) \<Rightarrow> 'a list \<Rightarrow> error + 'a option" where
  "findM p [] = Inr None"
| "findM p (x # xs) =
     (case p x of
        Inl e \<Rightarrow> Inl e
      | Inr b \<Rightarrow> if b then Inr (Some x) else findM p xs)"

definition someM :: "('a \<Rightarrow> error + bool) \<Rightarrow> 'a list \<Rightarrow> error + bool" where
  "someM p xs = (case findM p xs of Inl e \<Rightarrow> Inl e | Inr r \<Rightarrow> Inr (r \<noteq> None))"

section \<open>Call records\<close>

text \<open>
  A call record as the voice platform delivers it. A field the code tests for presence is
  an option (\<open>None\<close>: absent or \<open>null\<close>); an empty text is \<open>Some []\<close>, and the
  functions below treat it as the code's truthiness tests do. The timestamps
  \<open>startedAt\<close> and \<open>endedAt\<close> are held as the epoch milliseconds that
  \<open>new Date(...)\<close> reads from them (\<open>None\<close> when the field is falsy), so a record
  whose timestamp text is not a date is outside the model.

  The \<open>arguments\<close> of a tool call are JSON text: \<open>NoArguments\<close> when the field is
  falsy, \<open>BadArguments\<close> when \<open>JSON.parse\<close> throws on it, and \<open>Arguments v\<close> when it
  parses to \<open>v\<close>. A \<open>successEvaluation\<close> is \<open>NoEvaluation\<close> when the field is
  falsy, \<open>EvaluationText p\<close> when it is a non-empty string, with \<open>p\<close> what
  \<open>JSON.parse\<close> makes of it (\<open>None\<close> when it throws), and \<open>EvaluationValue v\<close> when
  it is any other value \<open>v\<close>. \<open>structuredOutputs\<close> is an object, the list of its keys
  and outputs.
\<close>

datatype tool_args =
    NoArguments
  | BadArguments
  | Arguments jsval

record tool_function =
  fname :: "string option"
  farguments :: tool_args

record tool_call =
  tfunction :: "tool_function option"

record msg =
  m_role :: "string option"
  m_message :: "string option"
  m_toolCalls :: "tool_call list option"

record structured_output =
  so_name :: "string option"
  so_result :: jsval

datatype success_eval =
    NoEvaluation
  | EvaluationText "jsval option"
  | EvaluationValue jsval

record destination =
  d_description :: "string option"
  d_number :: "string option"

record call =
  call_id :: string
  call_createdAt :: "string option"
  call_startedAt :: "int option"
  call_endedAt :: "int option"
  call_duration :: "rat option"
  call_endedReason :: "string option"
  call_destination :: "destination option"
  call_toolCalls :: "tool_call list option"
  call_messages :: "msg list option"
  call_structuredOutputs :: "(string \<times> structured_output) list option"
  call_successEvaluation :: success_eval
  call_transcript :: "string option"
  call_summary :: "string option"

text \<open>
  The test for a transfer tool, \<open>t.function?.name\<close> being one of the three tool names
  (written out in classify\_call.js and enrich.js, \<open>TRANSFER_TOOL_NAMES.has\<close> in the
  report scripts).
\<close>

definition isTransferTool :: "tool_call \<Rightarrow> bool" where
  "isTransferTool t =
     (case tfunction t of
        None \<Rightarrow> False
      | Some f \<Rightarrow>
          fname f \<in> set [Some ''intent_transfer'', Some ''transfer_intent'',
                          Some ''transferCall''])"

section \<open>Classifications and enrichments\<close>

text \<open>
  The classification object of an enrichment. \<open>category\<close> and the three sub-type fields
  hold whatever the language model returned for them, so they are JSON values.
\<close>

record classification =
  category :: jsval
  hangupType :: jsval
  transferReason :: jsval
  spamType :: jsval
  bookingStatus :: string

record enrichment =
  e_callId :: string
  e_createdAt :: "string option"
  e_enrichedAt :: "string option"
  e_model :: string
  e_classification :: "classification option"

section \<open>Double-precision arithmetic\<close>

text \<open>
  A JavaScript number is an IEEE 754 double. The code below divides a difference of
  milliseconds by 1000, and its statistics divide, multiply and add numbers; each such
  operation returns the double nearest to the exact result, a tie going to the even
  significand. A finite double is held as the rational it denotes, and
  \<open>toDouble\<close> is that rounding: for \<open>x\<close> between \<open>2^E\<close> and \<open>2^(E+1)\<close> in absolute
  value, the nearest multiple of \<open>2^(E-52)\<close> (of \<open>2^-1074\<close> for the subnormal numbers).
  Results beyond the largest finite double are outside the model.
\<close>

definition roundHalfEven :: "rat \<Rightarrow> int" where
  "roundHalfEven x =
     (let f = \<lfloor>x\<rfloor>; r = x - of_int f
      in if r < 1 / 2 then f else if 1 / 2 < r then f + 1 else if even f then f else f + 1)"

text \<open>
  The binary exponent of a number other than 0: the difference of the bit lengths of the
  numerator and the denominator, or one less.
\<close>

definition exponentOf :: "rat \<Rightarrow> int" where
  "exponentOf x =
     (let k = int (floorlog 2 (nat (fst (quotient_of \<bar>x\<bar>))))
              - int (floorlog 2 (nat (snd (quotient_of \<bar>x\<bar>))))
      in if 2 powi k \<le> \<bar>x\<bar> then k else k - 1)"

definition toDouble :: "rat \<Rightarrow> rat" where
  "toDouble x =
     (if x = 0 then 0
      else let e = max (exponentOf x - 52) (- 1074)
           in of_int (roundHalfEven (x / 2 powi e)) * 2 powi e)"

section \<open>Duration statistics (report scripts)\<close>

text \<open>\<open>xs[i]\<close> for an integer \<open>i\<close>: \<open>undefined\<close> outside the array.\<close>

definition js_index :: "'a list \<Rightarrow> int \<Rightarrow> 'a option" where
  "js_index xs i = (if 0 \<le> i \<and> i < int (length xs) then Some (xs ! nat i) else None)"

text \<open>
  \<open>percentile(values, pct)\<close>, its first parameter written \<open>vals\<close>; the values and
  \<open>pct\<close> are doubles. The comparator \<open>(a, b) => a - b\<close> sorts numbers ascending. The
  quotient \<open>pct / 100\<close> and its product with the length are each rounded to a double;
  \<open>Math.ceil\<close>, and the subtraction and the clamping of integers in the range of array
  lengths, are exact. \<open>None\<close> stands for \<open>undefined\<close>.
\<close>

definition percentile :: "rat list \<Rightarrow> rat \<Rightarrow> rat option" where
  "percentile vals pct =
     (if length vals = 0 then Some 0
      else
        let sorted = sort vals;
            rank = \<lceil>toDouble (toDouble (pct / 100) * of_nat (length sorted))\<rceil> - 1
        in js_index sorted (max 0 (min rank (int (length sorted) - 1))))"

record duration_stats =
  avg :: int
  median :: "rat option"
  p90 :: "rat option"

text \<open>
  \<open>computeDurationStats(values)\<close>. Every addition of the \<open>reduce\<close> and the division
  by the length are rounded to a double; \<open>Math.round\<close> of that double is exact.
\<close>

definition computeDurationStats :: "rat list \<Rightarrow> duration_stats" where
  "computeDurationStats vals =
     (if length vals = 0 then \<lparr>avg = 0, median = Some 0, p90 = Some 0\<rparr>
      else
        \<lparr>avg = math_round
                 (toDouble (foldl (\<lambda>sum v. toDouble (sum + v)) 0 vals / of_nat (length vals))),
         median = percentile vals 50,
         p90 = percentile vals 90\<rparr>)"

section \<open>The rule-based classifier (classify\_call.js)\<close>

text \<open>
  The result of \<open>classifyCall\<close>: a classification with the three fields the function
  writes (\<open>category\<close>, \<open>bookingStatus\<close>, \<open>transferReason\<close>), or the object
  \<open>{needs_analysis: true}\<close>. The template \<open>hung-up-during-transfer-to-${d}\<close> is
  expanded when \<open>d\<close> is a string and kept with its argument otherwise.
\<close>

datatype reason_text =
    Literal string
  | HungUpDuringTransferTo jsval

record local_result =
  lc_category :: string
  lc_bookingStatus :: string
  lc_transferReason :: reason_text

datatype classify_result =
    Classified local_result
  | NeedsAnalysis

fun hungUpTemplate :: "jsval \<Rightarrow> reason_text" where
  "hungUpTemplate (JStr d) = Literal (''hung-up-during-transfer-to-'' @ d)"
| "hungUpTemplate v = HungUpDuringTransferTo v"

text \<open>\<open>Object.values(o)\<close>: one value per key.\<close>

definition objectValues :: "(string \<times> 'a) list \<Rightarrow> 'a list" where
  "objectValues kvs = map snd (AList.clearjunk kvs)"

text \<open>\<open>xs.join(sep)\<close> on strings.\<close>

fun joinWith :: "string \<Rightarrow> string list \<Rightarrow> string" where
  "joinWith sep [] = []"
| "joinWith sep [x] = x"
| "joinWith sep (x # y # ys) = x @ sep @ joinWith sep (y # ys)"

text \<open>Rule 3: the structured output named \<open>Appointment Booked\<close> has result \<open>true\<close>.\<close>

definition structuredAppointmentBooked :: "call \<Rightarrow> bool" where
  "structuredAppointmentBooked c =
     (case call_structuredOutputs c of
        None \<Rightarrow> False
      | Some outputs \<Rightarrow>
          (case List.find (\<lambda>output. so_name output = Some ''Appointment Booked'')
                  (objectValues outputs) of
             None \<Rightarrow> False
           | Some output \<Rightarrow> so_result output = JBool True))"

text \<open>
  Rule 3b, the body of the \<open>try\<close> on the parsed success evaluation; every exception in
  it is caught and leaves \<open>vapiSuccess\<close> false.
\<close>

definition evalIndicatesSuccess :: "jsval \<Rightarrow> bool" where
  "evalIndicatesSuccess evalData =
     (case getProp evalData ''call_success'' of
        Inl err \<Rightarrow> False
      | Inr cs \<Rightarrow>
          if cs = JStr ''yes'' then True
          else (case getProp evalData ''final_outcome'' of
                  Inl err \<Rightarrow> False
                | Inr (JStr outcome) \<Rightarrow>
                    str_includes (toLowerCase outcome) ''booked''
                    \<or> str_includes (toLowerCase outcome) ''scheduled''
                | Inr other \<Rightarrow> False))"

definition vapiSuccess :: "call \<Rightarrow> bool" where
  "vapiSuccess c =
     (case call_successEvaluation c of
        NoEvaluation \<Rightarrow> False
      | EvaluationText None \<Rightarrow> False
      | EvaluationText (Some evalData) \<Rightarrow> evalIndicatesSuccess evalData
      | EvaluationValue evalData \<Rightarrow> truthy evalData \<and> evalIndicatesSuccess evalData)"

definition hasConfirmationPhrase :: "call \<Rightarrow> bool" where
  "hasConfirmationPhrase c =
     (let transcript = (case call_transcript c of None \<Rightarrow> [] | Some t \<Rightarrow> t);
          messages = (case call_messages c of None \<Rightarrow> [] | Some ms \<Rightarrow> ms);
          fullText = transcript @ '' '' @
            joinWith '' '' (map (\<lambda>m. case m_message m of None \<Rightarrow> [] | Some t \<Rightarrow> t)
                             (filter (\<lambda>m. m_role m = Some ''assistant'') messages));
          lowerText = toLowerCase fullText
      in str_includes lowerText ''appointment is confirmed for''
         \<or> str_includes lowerText ''consultation is confirmed for''
         \<or> str_includes lowerText ''your appointment is confirmed''
         \<or> str_includes lowerText ''your consultation is confirmed'')"

text \<open>
  Rule 4: \<open>JSON.parse(tool.function.arguments)\<close> and the read of \<open>destination\<close>, in a
  \<open>try\<close> whose \<open>catch\<close> sets the destination to \<open>Unknown Destination\<close>.
\<close>

definition destinationOfArguments :: "tool_args \<Rightarrow> jsval" where
  "destinationOfArguments a =
     (case a of
        NoArguments \<Rightarrow> JStr ''Unknown Destination''
      | BadArguments \<Rightarrow> JStr ''Unknown Destination''
      | Arguments args \<Rightarrow>
          (case getProp args ''destination'' of
             Inl err \<Rightarrow> JStr ''Unknown Destination''
           | Inr d \<Rightarrow> d))"

definition topLevelDestination :: "call \<Rightarrow> jsval" where
  "topLevelDestination c =
     (case call_toolCalls c of
        None \<Rightarrow> JNull
      | Some ts \<Rightarrow>
          (case List.find isTransferTool ts of
             None \<Rightarrow> JNull
           | Some transferTool \<Rightarrow>
               (case tfunction transferTool of
                  None \<Rightarrow> JNull
                | Some f \<Rightarrow> destinationOfArguments (farguments f))))"

text \<open>
  In the messages, the tool's name is read as \<open>t.function.name\<close>: a tool call without
  \<open>function\<close> throws a TypeError that nothing catches.
\<close>

definition isTransferToolStrict :: "tool_call \<Rightarrow> error + bool" where
  "isTransferToolStrict t =
     (case tfunction t of
        None \<Rightarrow> Inl TypeError
      | Some f \<Rightarrow>
          Inr (fname f \<in> set [Some ''intent_transfer'', Some ''transfer_intent'',
                               Some ''transferCall'']))"

definition isToolCallMessage :: "msg \<Rightarrow> error + bool" where
  "isToolCallMessage m =
     (if m_role m = Some ''tool_calls'' then Inr True
      else (case m_toolCalls m of
              None \<Rightarrow> Inr False
            | Some ts \<Rightarrow> someM isTransferToolStrict ts))"

definition messageDestination :: "msg list \<Rightarrow> jsval \<Rightarrow> error + jsval" where
  "messageDestination messages transferDestination =
     (case findM isToolCallMessage messages of
        Inl e \<Rightarrow> Inl e
      | Inr None \<Rightarrow> Inr transferDestination
      | Inr (Some toolCallMessage) \<Rightarrow>
          (case m_toolCalls toolCallMessage of
             None \<Rightarrow> Inl TypeError
           | Some ts \<Rightarrow>
               (case findM isTransferToolStrict ts of
                  Inl e \<Rightarrow> Inl e
                | Inr None \<Rightarrow> Inr transferDestination
                | Inr (Some tool) \<Rightarrow>
                    (case tfunction tool of
                       None \<Rightarrow> Inl TypeError
                     | Some f \<Rightarrow> Inr (destinationOfArguments (farguments f))))))"

definition transferDestinationOf :: "call \<Rightarrow> error + jsval" where
  "transferDestinationOf c =
     (let transferDestination = topLevelDestination c
      in if \<not> truthy transferDestination then
           (case call_messages c of
              None \<Rightarrow> Inr transferDestination
            | Some messages \<Rightarrow> messageDestination messages transferDestination)
         else Inr transferDestination)"

definition classifyCall :: "call \<Rightarrow> error + classify_result" where
  "classifyCall c =
     (let duration0 = (case call_duration c of None \<Rightarrow> 0 | Some d \<Rightarrow> d);
          duration =
            (if duration0 = 0 then
               (case (call_startedAt c, call_endedAt c) of
                  (Some start, Some end') \<Rightarrow> toDouble (of_int (end' - start) / 1000)
                | _ \<Rightarrow> duration0)
             else duration0)
      in if duration < 5 then
           Inr (Classified \<lparr>lc_category = ''spam'', lc_bookingStatus = ''none'',
                             lc_transferReason = Literal ''short-abandoned''\<rparr>)
         else if call_endedReason c = Some ''assistant-forwarded-call'' then
           (let destination =
                  (case call_destination c of
                     None \<Rightarrow> ''unknown-destination''
                   | Some d \<Rightarrow>
                       (case d_description d of
                          Some t \<Rightarrow> if t \<noteq> [] then t
                                    else (case d_number d of
                                            Some n \<Rightarrow> if n \<noteq> [] then n else ''unknown-destination''
                                          | None \<Rightarrow> ''unknown-destination'')
                        | None \<Rightarrow> (case d_number d of
                                     Some n \<Rightarrow> if n \<noteq> [] then n else ''unknown-destination''
                                   | None \<Rightarrow> ''unknown-destination'')))
            in Inr (Classified \<lparr>lc_category = ''transferred'', lc_bookingStatus = ''none'',
                                 lc_transferReason = Literal destination\<rparr>))
         else if structuredAppointmentBooked c \<or> hasConfirmationPhrase c \<or> vapiSuccess c then
           Inr (Classified \<lparr>lc_category = ''booking-success'',
                             lc_bookingStatus = ''booking-success'',
                             lc_transferReason = Literal ''none''\<rparr>)
         else
           (case transferDestinationOf c of
              Inl e \<Rightarrow> Inl e
            | Inr transferDestination \<Rightarrow>
                if truthy transferDestination
                   \<and> call_endedReason c \<noteq> Some ''assistant-forwarded-call'' then
                  Inr (Classified \<lparr>lc_category = ''hangup'', lc_bookingStatus = ''none'',
                                    lc_transferReason = hungUpTemplate transferDestination\<rparr>)
                else if call_endedReason c = Some ''customer-ended-call'' then
                  Inr (Classified \<lparr>lc_category = ''hangup'', lc_bookingStatus = ''none'',
                                    lc_transferReason = Literal ''customer-hung-up''\<rparr>)
                else if call_endedReason c = Some ''assistant-ended-call'' then
                  Inr NeedsAnalysis
                else Inr NeedsAnalysis))"

section \<open>The model-assisted classifier and its overrides (enrich.js)\<close>

text \<open>
  One element of \<open>callSummaries\<close>: the metadata \<open>classifyCallsBatch\<close> extracts from
  a call before it asks the language model.
\<close>

record features =
  f_index :: nat
  f_callId :: string
  f_duration :: int
  f_endedReason :: string
  f_transferDestinationHint :: jsval
  f_appointmentBooked :: bool
  f_transcript :: string
  f_summary :: string

text \<open>
  The transfer hint: every message with tool calls is visited, and a later transfer tool
  overwrites the hint of an earlier one. A parse error or a \<open>null\<close> payload is caught
  and leaves the hint as it was.
\<close>

definition hintStep :: "jsval \<Rightarrow> msg \<Rightarrow> jsval" where
  "hintStep transferDestination m =
     (case m_toolCalls m of
        None \<Rightarrow> transferDestination
      | Some ts \<Rightarrow>
          (case List.find isTransferTool ts of
             None \<Rightarrow> transferDestination
           | Some transferTool \<Rightarrow>
               (case tfunction transferTool of
                  None \<Rightarrow> transferDestination
                | Some f \<Rightarrow>
                    (case farguments f of
                       NoArguments \<Rightarrow> transferDestination
                     | BadArguments \<Rightarrow> transferDestination
                     | Arguments args \<Rightarrow>
                         (case (getProp args ''destination'', getProp args ''intent'') of
                            (Inr d, Inr i) \<Rightarrow> jor d (jor i JNull)
                          | _ \<Rightarrow> transferDestination)))))"

definition transferDestinationHint :: "call \<Rightarrow> jsval" where
  "transferDestinationHint c =
     (case call_messages c of
        None \<Rightarrow> JNull
      | Some ms \<Rightarrow> foldl hintStep JNull ms)"

text \<open>
  The booking flag, first source: \<open>structuredOutputs['Appointment Booked'].result\<close> is
  \<open>true\<close>.
\<close>

definition structuredBookedFlag :: "call \<Rightarrow> bool" where
  "structuredBookedFlag c =
     (case call_structuredOutputs c of
        None \<Rightarrow> False
      | Some outputs \<Rightarrow>
          (case map_of outputs ''Appointment Booked'' of
             None \<Rightarrow> False
           | Some output \<Rightarrow> so_result output = JBool True))"

text \<open>
  The success evaluation the second source reads: none when the field is falsy, the
  parsed text (the empty object when the text does not parse), or the value itself.
\<close>

definition evaluationPayload :: "call \<Rightarrow> jsval option" where
  "evaluationPayload c =
     (case call_successEvaluation c of
        NoEvaluation \<Rightarrow> None
      | EvaluationText None \<Rightarrow> Some (JObj [])
      | EvaluationText (Some v) \<Rightarrow> Some v
      | EvaluationValue v \<Rightarrow> if truthy v then Some v else None)"

text \<open>
  The four-way test on the lower-cased \<open>final_outcome\<close>.
\<close>

definition outcomeIsBooking :: "string \<Rightarrow> bool" where
  "outcomeIsBooking finalOutcome =
     ((str_includes finalOutcome ''appointment'' \<or> str_includes finalOutcome ''consultation'')
      \<and> (str_includes finalOutcome ''scheduled'' \<or> str_includes finalOutcome ''confirmed''
           \<or> str_includes finalOutcome ''booked'')
      \<and> \<not> str_includes finalOutcome ''transferred'')"

text \<open>
  Reading \<open>final_outcome\<close> throws a TypeError when the payload is \<open>null\<close>, and so does
  \<open>toLowerCase\<close> on a truthy outcome that is not a string; neither is caught.
\<close>

definition appointmentBookedOf :: "call \<Rightarrow> error + bool" where
  "appointmentBookedOf c =
     (let appointmentBooked = structuredBookedFlag c
      in case evaluationPayload c of
           None \<Rightarrow> Inr appointmentBooked
         | Some evalData \<Rightarrow>
             (case getProp evalData ''final_outcome'' of
                Inl e \<Rightarrow> Inl e
              | Inr outcome \<Rightarrow>
                  (case js_toLowerCase (jor outcome (JStr [])) of
                     Inl e \<Rightarrow> Inl e
                   | Inr finalOutcome \<Rightarrow>
                       (case getProp evalData ''call_success'' of
                          Inl e \<Rightarrow> Inl e
                        | Inr success \<Rightarrow>
                            if success = JStr ''yes'' \<and> outcomeIsBooking finalOutcome
                            then Inr True
                            else Inr appointmentBooked))))"

definition extractFeatures :: "nat \<Rightarrow> call \<Rightarrow> error + features" where
  "extractFeatures idx c =
     (let duration =
            (case (call_endedAt c, call_startedAt c) of
               (Some end', Some start) \<Rightarrow> math_round (toDouble (of_int (end' - start) / 1000))
             | _ \<Rightarrow> 0);
          transferDestination = transferDestinationHint c
      in case appointmentBookedOf c of
           Inl e \<Rightarrow> Inl e
         | Inr appointmentBooked \<Rightarrow>
             Inr \<lparr>f_index = idx,
                  f_callId = call_id c,
                  f_duration = duration,
                  f_endedReason =
                    (case call_endedReason c of
                       None \<Rightarrow> ''unknown''
                     | Some r \<Rightarrow> if r = [] then ''unknown'' else r),
                  f_transferDestinationHint = transferDestination,
                  f_appointmentBooked = appointmentBooked,
                  f_transcript = (case call_transcript c of None \<Rightarrow> [] | Some t \<Rightarrow> t),
                  f_summary =
                    (case call_summary c of
                       None \<Rightarrow> ''No summary available''
                     | Some t \<Rightarrow> if t = [] then ''No summary available'' else t)\<rparr>)"

text \<open>\<open>calls.map((call, idx) => ...)\<close>.\<close>

fun extractAll :: "nat \<Rightarrow> call list \<Rightarrow> error + features list" where
  "extractAll idx [] = Inr []"
| "extractAll idx (c # cs) =
     (case extractFeatures idx c of
        Inl e \<Rightarrow> Inl e
      | Inr f \<Rightarrow> (case extractAll (Suc idx) cs of Inl e \<Rightarrow> Inl e | Inr fs \<Rightarrow> Inr (f # fs)))"

text \<open>The object literals of the loop body.\<close>

definition classificationObject :: "jsval \<Rightarrow> jsval \<Rightarrow> jsval \<Rightarrow> jsval \<Rightarrow> jsval" where
  "classificationObject cat hType tReason sType =
     JObj [(''category'', cat), (''hangupType'', hType), (''transferReason'', tReason),
           (''spamType'', sType)]"

text \<open>
  \<open>result.calls?.find(c => c.callId === call.id) || {category: 'unknown', ...}\<close>.
  A reply that is \<open>null\<close>, a \<open>calls\<close> that is neither absent nor an array, and a
  \<open>null\<close> entry met before the call's own entry each throw a TypeError.
\<close>

definition hasCallId :: "string \<Rightarrow> jsval \<Rightarrow> error + bool" where
  "hasCallId cid entry =
     (case getProp entry ''callId'' of Inl e \<Rightarrow> Inl e | Inr v \<Rightarrow> Inr (v = JStr cid))"

definition modelClassification :: "jsval \<Rightarrow> string \<Rightarrow> error + jsval" where
  "modelClassification result cid =
     (case getProp result ''calls'' of
        Inl e \<Rightarrow> Inl e
      | Inr JUndefined \<Rightarrow> Inr (classificationObject (JStr ''unknown'') JNull JNull JNull)
      | Inr JNull \<Rightarrow> Inr (classificationObject (JStr ''unknown'') JNull JNull JNull)
      | Inr (JArr entries) \<Rightarrow>
          (case findM (hasCallId cid) entries of
             Inl e \<Rightarrow> Inl e
           | Inr None \<Rightarrow> Inr (classificationObject (JStr ''unknown'') JNull JNull JNull)
           | Inr (Some entry) \<Rightarrow>
               Inr (jor entry (classificationObject (JStr ''unknown'') JNull JNull JNull)))
      | Inr other \<Rightarrow> Inl TypeError)"

text \<open>Override 1: the booking flag forces \<open>booking-completed\<close>.\<close>

definition override1 :: "features \<Rightarrow> jsval \<Rightarrow> error + jsval" where
  "override1 callMetadata cl =
     (case getProp cl ''category'' of
        Inl e \<Rightarrow> Inl e
      | Inr cat \<Rightarrow>
          if f_appointmentBooked callMetadata \<and> cat \<noteq> JStr ''booking-completed''
          then Inr (classificationObject (JStr ''booking-completed'') JNull JNull JNull)
          else Inr cl)"

text \<open>Override 2: the fallback rules for the category \<open>unknown\<close>.\<close>

definition override2 :: "features \<Rightarrow> jsval \<Rightarrow> error + jsval" where
  "override2 callMetadata cl =
     (case getProp cl ''category'' of
        Inl e \<Rightarrow> Inl e
      | Inr cat \<Rightarrow>
          if cat = JStr ''unknown'' then
            (let endedReason = f_endedReason callMetadata;
                 duration = f_duration callMetadata
             in if endedReason = ''assistant-forwarded-call'' then
                  Inr (classificationObject (JStr ''transferred'') JNull (JStr ''other'') JNull)
                else if endedReason = ''customer-ended-call''
                        \<or> endedReason = ''silence-timed-out'' then
                  (if duration < 10 then
                     Inr (classificationObject (JStr ''spam'') JNull JNull (JStr ''short-call''))
                   else
                     Inr (classificationObject (JStr ''hangup'')
                            (JStr (if duration < 30 then ''low-value'' else ''moderate''))
                            JNull JNull))
                else Inr cl)
          else Inr cl)"

text \<open>
  \<open>category?.startsWith('booking') ? 'booking-attempt' : 'none'\<close>: a category that is
  present and not a string has no \<open>startsWith\<close>, a TypeError.
\<close>

definition bookingStatusOf :: "jsval \<Rightarrow> error + string" where
  "bookingStatusOf cat =
     (case cat of
        JUndefined \<Rightarrow> Inr ''none''
      | JNull \<Rightarrow> Inr ''none''
      | JStr s \<Rightarrow> Inr (if startsWith s ''booking'' then ''booking-attempt'' else ''none'')
      | _ \<Rightarrow> Inl TypeError)"

definition finalClassification :: "jsval \<Rightarrow> error + classification" where
  "finalClassification cl =
     (case (getProp cl ''category'', getProp cl ''hangupType'', getProp cl ''transferReason'',
            getProp cl ''spamType'') of
        (Inr cat, Inr hType, Inr tReason, Inr sType) \<Rightarrow>
          (case bookingStatusOf cat of
             Inl e \<Rightarrow> Inl e
           | Inr status \<Rightarrow>
               Inr \<lparr>category = cat,
                    hangupType = jor hType JNull,
                    transferReason = jor tReason JNull,
                    spamType = jor sType JNull,
                    bookingStatus = status\<rparr>)
      | _ \<Rightarrow> Inl TypeError)"

text \<open>
  The body of the loop over the batch, for one call and its metadata. \<open>now\<close> is the
  time stamp \<open>new Date().toISOString()\<close>.
\<close>

definition classifyOne :: "string \<Rightarrow> jsval \<Rightarrow> call \<times> features \<Rightarrow> error + enrichment" where
  "classifyOne now result cm =
     (case modelClassification result (call_id (fst cm)) of
        Inl e \<Rightarrow> Inl e
      | Inr cl0 \<Rightarrow>
          (case override1 (snd cm) cl0 of
             Inl e \<Rightarrow> Inl e
           | Inr cl1 \<Rightarrow>
               (case override2 (snd cm) cl1 of
                  Inl e \<Rightarrow> Inl e
                | Inr cl2 \<Rightarrow>
                    (case finalClassification cl2 of
                       Inl e \<Rightarrow> Inl e
                     | Inr k \<Rightarrow>
                         Inr \<lparr>e_callId = call_id (fst cm),
                              e_createdAt = call_createdAt (fst cm),
                              e_enrichedAt = Some now,
                              e_model = ''gpt-4o-mini'',
                              e_classification = Some k\<rparr>))))"

text \<open>The \<open>catch\<close> branch: every call of the batch gets the category \<open>unknown\<close>.\<close>

definition fallbackEnrichment :: "string \<Rightarrow> call \<Rightarrow> enrichment" where
  "fallbackEnrichment now c =
     \<lparr>e_callId = call_id c,
      e_createdAt = call_createdAt c,
      e_enrichedAt = Some now,
      e_model = ''gpt-4o-mini'',
      e_classification =
        Some \<lparr>category = JStr ''unknown'', hangupType = JNull, transferReason = JNull,
              spamType = JNull, bookingStatus = ''none''\<rparr>\<rparr>"

text \<open>
  What the request to the language model comes to: it throws (network, authentication,
  rate limit, or a reply without message content), or it returns a text, held as what
  \<open>JSON.parse\<close> makes of it (\<open>None\<close> when the text does not parse).
\<close>

datatype llm_response =
    RequestFailed
  | ResponseText "jsval option"

text \<open>The body of the \<open>try\<close> after the request: any exception reaches the \<open>catch\<close>.\<close>

definition tryBody :: "string \<Rightarrow> llm_response \<Rightarrow> call list \<Rightarrow> features list \<Rightarrow> error + enrichment list" where
  "tryBody now response calls callSummaries =
     (case response of
        RequestFailed \<Rightarrow> Inl RequestError
      | ResponseText None \<Rightarrow> Inl SyntaxError
      | ResponseText (Some result) \<Rightarrow> mapM (classifyOne now result) (zip calls callSummaries))"

text \<open>
  \<open>classifyCallsBatch\<close>. The metadata is extracted before the \<open>try\<close>, so an exception
  there rejects the whole call (\<open>Inl\<close>); the prompt text plays no part in the result.
\<close>

definition classifyCallsBatch :: "string \<Rightarrow> call list \<Rightarrow> llm_response \<Rightarrow> error + enrichment list" where
  "classifyCallsBatch now calls response =
     (case extractAll 0 calls of
        Inl e \<Rightarrow> Inl e
      | Inr callSummaries \<Rightarrow>
          (case tryBody now response calls callSummaries of
             Inl e \<Rightarrow> Inr (map (fallbackEnrichment now) calls)
           | Inr enrichments \<Rightarrow> Inr enrichments))"

text \<open>
  The sub-table of override 2 as the specification words it, with the sub-type fields and
  booking status of the stored classification.
\<close>

definition fallbackTable :: "string \<Rightarrow> int \<Rightarrow> classification" where
  "fallbackTable endedReason duration =
     (if endedReason = ''assistant-forwarded-call'' then
        \<lparr>category = JStr ''transferred'', hangupType = JNull,
         transferReason = JStr ''other'', spamType = JNull, bookingStatus = ''none''\<rparr>
      else if endedReason \<in> set [''customer-ended-call'', ''silence-timed-out''] then
        (if duration < 10 then
           \<lparr>category = JStr ''spam'', hangupType = JNull, transferReason = JNull,
            spamType = JStr ''short-call'', bookingStatus = ''none''\<rparr>
         else
           \<lparr>category = JStr ''hangup'',
            hangupType = JStr (if duration < 30 then ''low-value'' else ''moderate''),
            transferReason = JNull, spamType = JNull, bookingStatus = ''none''\<rparr>)
      else
        \<lparr>category = JStr ''unknown'', hangupType = JNull, transferReason = JNull,
         spamType = JNull, bookingStatus = ''none''\<rparr>)"

section \<open>The classification store (store\_enrichment.js)\<close>

text \<open>
  The store is the directory of daily files: a file, named by its date key, is an object
  from call identifiers to enrichments, held as it parses. \<open>enrichmentsByDate\<close> is an
  object of objects; assigning to a key replaces the binding or appends a new one.
\<close>

type_synonym daily_file = "string \<rightharpoonup> enrichment"

type_synonym store = "string \<rightharpoonup> daily_file"

type_synonym grouped = "(string \<times> (string \<times> enrichment) list) list"

text \<open>\<open>{callId, enrichedAt: now, ...enrichment}\<close>: the enrichment's own fields win.\<close>

definition storedRecord :: "string \<Rightarrow> enrichment \<Rightarrow> enrichment" where
  "storedRecord now e =
     e\<lparr>e_enrichedAt := Some (case e_enrichedAt e of None \<Rightarrow> now | Some t \<Rightarrow> t)\<rparr>"

text \<open>
  The first loop of \<open>saveEnrichments\<close>. \<open>fmt\<close> is
  \<open>format(new Date(createdAt), 'yyyy-MM-dd')\<close>, which throws a RangeError on a text that
  is no date (\<open>None\<close>). An enrichment whose \<open>createdAt\<close> is falsy is skipped with a
  warning.
\<close>

fun groupByDate ::
  "(string \<Rightarrow> string option) \<Rightarrow> string \<Rightarrow> grouped \<Rightarrow> enrichment list \<Rightarrow> error + grouped" where
  "groupByDate fmt now enrichmentsByDate [] = Inr enrichmentsByDate"
| "groupByDate fmt now enrichmentsByDate (e # es) =
     (case e_createdAt e of
        None \<Rightarrow> groupByDate fmt now enrichmentsByDate es
      | Some createdAt \<Rightarrow>
          if createdAt = [] then groupByDate fmt now enrichmentsByDate es
          else
            (case fmt createdAt of
               None \<Rightarrow> Inl RangeError
             | Some dateKey \<Rightarrow>
                 let day = (case map_of enrichmentsByDate dateKey of
                              None \<Rightarrow> []
                            | Some d \<Rightarrow> d)
                 in groupByDate fmt now
                      (AList.update dateKey
                         (AList.update (e_callId e) (storedRecord now e) day)
                         enrichmentsByDate)
                      es))"

text \<open>
  The second loop: each daily file is read (the empty object when it does not exist),
  merged with the new entries, which overwrite old ones, and written back.
\<close>

fun writeFiles :: "store \<Rightarrow> nat \<Rightarrow> grouped \<Rightarrow> store \<times> nat" where
  "writeFiles s totalSaved [] = (s, totalSaved)"
| "writeFiles s totalSaved ((dateKey, enrichmentData) # rest) =
     (let existingEnrichments = (case s dateKey of None \<Rightarrow> Map.empty | Some f \<Rightarrow> f);
          merged = existingEnrichments ++ map_of enrichmentData;
          newCount = length enrichmentData
      in writeFiles (s(dateKey \<mapsto> merged)) (totalSaved + newCount) rest)"

definition saveEnrichments ::
  "(string \<Rightarrow> string option) \<Rightarrow> string \<Rightarrow> enrichment list \<Rightarrow> store \<Rightarrow> error + store \<times> nat" where
  "saveEnrichments fmt now enrichments s =
     (case groupByDate fmt now [] enrichments of
        Inl err \<Rightarrow> Inl err
      | Inr enrichmentsByDate \<Rightarrow> Inr (writeFiles s 0 enrichmentsByDate))"

text \<open>The record the store holds for a call identifier in the file of a date key.\<close>

definition lookupStore :: "store \<Rightarrow> string \<Rightarrow> string \<Rightarrow> enrichment option" where
  "lookupStore s dateKey cid = (case s dateKey of None \<Rightarrow> None | Some f \<Rightarrow> f cid)"

text \<open>An enrichment that carries a creation time stamp.\<close>

definition hasCreatedAt :: "enrichment \<Rightarrow> bool" where
  "hasCreatedAt e = (case e_createdAt e of None \<Rightarrow> False | Some t \<Rightarrow> t \<noteq> [])"

text \<open>An enrichment of a batch that is filed under a date key for a call identifier.\<close>

definition filedUnder :: "(string \<Rightarrow> string option) \<Rightarrow> string \<Rightarrow> string \<Rightarrow> enrichment \<Rightarrow> bool" where
  "filedUnder fmt dateKey cid e =
     (e_callId e = cid \<and>
      (case e_createdAt e of
         None \<Rightarrow> False
       | Some t \<Rightarrow> t \<noteq> [] \<and> fmt t = Some dateKey))"

text \<open>The entry of \<open>enrichmentsByDate\<close> for a date key and a call identifier.\<close>

definition lookupGrouped :: "grouped \<Rightarrow> string \<Rightarrow> string \<Rightarrow> enrichment option" where
  "lookupGrouped g dateKey cid = (case map_of g dateKey of None \<Rightarrow> None | Some day \<Rightarrow> map_of day cid)"

text \<open>The last enrichment of a batch filed under a date key for a call identifier.\<close>

definition lastFiled :: "(string \<Rightarrow> string option) \<Rightarrow> string \<Rightarrow> string \<Rightarrow> enrichment list \<Rightarrow> enrichment option" where
  "lastFiled fmt dateKey cid es = List.find (filedUnder fmt dateKey cid) (rev es)"

text \<open>The number of entries of \<open>enrichmentsByDate\<close>, over all its date keys.\<close>

definition totalEntries :: "grouped \<Rightarrow> nat" where
  "totalEntries g = sum_list (map (\<lambda>p. length (snd p)) g)"

section \<open>Routing status and metrics (report scripts)\<close>

definition getCallDuration :: "call \<Rightarrow> rat" where
  "getCallDuration c =
     (let duration = (case call_duration c of None \<Rightarrow> 0 | Some d \<Rightarrow> d)
      in if duration = 0 then
           (case (call_startedAt c, call_endedAt c) of
              (Some start, Some end') \<Rightarrow> toDouble (of_int (end' - start) / 1000)
            | _ \<Rightarrow> duration)
         else duration)"

text \<open>
  The body of the \<open>try\<close> in \<open>getTransferIntent\<close>: \<open>Some v\<close> when it returns \<open>v\<close>,
  \<open>None\<close> when the tool has no arguments or the \<open>try\<close> throws (the text does not
  parse, or it parses to \<open>null\<close>) and the search goes on.
\<close>

definition intentOfArguments :: "tool_args \<Rightarrow> jsval option" where
  "intentOfArguments a =
     (case a of
        NoArguments \<Rightarrow> None
      | BadArguments \<Rightarrow> None
      | Arguments args \<Rightarrow>
          (case (getProp args ''destination'', getProp args ''intent'',
                 getProp args ''department'', getProp args ''queue'') of
             (Inr d, Inr i, Inr p, Inr q) \<Rightarrow> Some (jor d (jor i (jor p (jor q JNull))))
           | _ \<Rightarrow> None))"

definition intentOfTools :: "tool_call list \<Rightarrow> jsval option" where
  "intentOfTools ts =
     (case List.find isTransferTool ts of
        None \<Rightarrow> None
      | Some tool \<Rightarrow>
          (case tfunction tool of None \<Rightarrow> None | Some f \<Rightarrow> intentOfArguments (farguments f)))"

fun intentOfMessages :: "msg list \<Rightarrow> jsval" where
  "intentOfMessages [] = JNull"
| "intentOfMessages (m # ms) =
     (case m_toolCalls m of
        None \<Rightarrow> intentOfMessages ms
      | Some ts \<Rightarrow> (case intentOfTools ts of Some v \<Rightarrow> v | None \<Rightarrow> intentOfMessages ms))"

definition getTransferIntent :: "call \<Rightarrow> jsval" where
  "getTransferIntent c =
     (case (case call_toolCalls c of None \<Rightarrow> None | Some ts \<Rightarrow> intentOfTools ts) of
        Some v \<Rightarrow> v
      | None \<Rightarrow> (case call_messages c of None \<Rightarrow> JNull | Some ms \<Rightarrow> intentOfMessages ms))"

definition hasCustomerSpeech :: "call \<Rightarrow> bool" where
  "hasCustomerSpeech c =
     (case call_messages c of
        None \<Rightarrow> False
      | Some ms \<Rightarrow>
          list_ex (\<lambda>m. m_role m = Some ''user'' \<and>
                       (case m_message m of None \<Rightarrow> False | Some t \<Rightarrow> matchesWord (trim t))) ms)"

definition isSpamLikelyShortNoSpeech :: "call \<Rightarrow> rat \<Rightarrow> bool" where
  "isSpamLikelyShortNoSpeech c durationSeconds =
     (durationSeconds \<le> 10 \<and> \<not> hasCustomerSpeech c)"

text \<open>
  One element of \<open>processCalls\<close>. The \<open>email\<close> field (a search of the record's texts
  for an address) takes no part in the routing and is left out.
\<close>

record processed_call =
  p_callId :: string
  p_createdAt :: "string option"
  p_endedReason :: "string option"
  p_category :: string
  p_hangupType :: jsval
  p_transferReason :: jsval
  p_spamType :: jsval
  p_duration :: rat
  p_transferIntent :: jsval
  p_routingStatus :: string
  p_routed :: bool
  p_transferAttempted :: bool
  p_intentIdentified :: bool
  p_notRouted :: bool
  p_hangupBeforeRoute :: bool
  p_summary :: string
  p_spamLikely :: bool

text \<open>The classification fields \<open>processCalls\<close> reads from the enrichment of a call.\<close>

definition readClassification ::
  "enrichment option \<Rightarrow> error + (string \<times> jsval \<times> jsval \<times> jsval)" where
  "readClassification enrichment =
     (case (case enrichment of None \<Rightarrow> None | Some e \<Rightarrow> e_classification e) of
        None \<Rightarrow> Inr (''unknown'', JNull, JNull, JNull)
      | Some k \<Rightarrow>
          (case js_toLowerCase (jor (category k) (JStr ''unknown'')) of
             Inl err \<Rightarrow> Inl err
           | Inr cat \<Rightarrow>
               Inr (cat, jor (hangupType k) JNull, jor (transferReason k) JNull,
                    jor (spamType k) JNull)))"

definition routingStatusOf :: "call \<Rightarrow> bool \<Rightarrow> bool \<Rightarrow> string \<Rightarrow> string" where
  "routingStatusOf c transferAttempted spamLikely cat =
     (if call_endedReason c = Some ''assistant-forwarded-call'' then ''routed''
      else if transferAttempted \<and> call_endedReason c = Some ''customer-ended-call''
        then ''hangup-before-route''
      else if spamLikely then ''spam-likely''
      else if cat = ''spam'' then ''spam''
      else ''not-routed'')"

definition processCall :: "(string \<rightharpoonup> enrichment) \<Rightarrow> call \<Rightarrow> error + processed_call" where
  "processCall enrichmentMap c =
     (let enrichment = enrichmentMap (call_id c);
          duration = getCallDuration c;
          transferIntent = getTransferIntent c;
          spamLikely = isSpamLikelyShortNoSpeech c duration
      in case readClassification enrichment of
           Inl err \<Rightarrow> Inl err
         | Inr (cat, hType, tReason, sType) \<Rightarrow>
             let transferAttempted = truthy transferIntent;
                 intentIdentified = truthy (jor transferIntent tReason);
                 routingStatus = routingStatusOf c transferAttempted spamLikely cat
             in Inr \<lparr>p_callId = call_id c,
                     p_createdAt = call_createdAt c,
                     p_endedReason = call_endedReason c,
                     p_category = cat,
                     p_hangupType = hType,
                     p_transferReason = tReason,
                     p_spamType = sType,
                     p_duration = duration,
                     p_transferIntent = transferIntent,
                     p_routingStatus = routingStatus,
                     p_routed = (routingStatus = ''routed''),
                     p_transferAttempted = transferAttempted,
                     p_intentIdentified = intentIdentified,
                     p_notRouted = (routingStatus = ''not-routed''),
                     p_hangupBeforeRoute = (routingStatus = ''hangup-before-route''),
                     p_summary = (case call_summary c of
                                    None \<Rightarrow> ''No summary''
                                  | Some t \<Rightarrow> if t = [] then ''No summary'' else t),
                     p_spamLikely = spamLikely\<rparr>)"

definition processCalls :: "call list \<Rightarrow> (string \<rightharpoonup> enrichment) \<Rightarrow> error + processed_call list" where
  "processCalls calls enrichmentMap = mapM (processCall enrichmentMap) calls"

text \<open>
  \<open>computeMetrics\<close>: the counts, the sanity check of the routing buckets and the
  duration statistics. The after-hours count, the transfer-reason table and the rounded
  rates, which read the client configuration or only reformat these counts, are left out.
  \<open>mt_warning\<close> holds when the code prints its warning that the buckets do not add up.
\<close>

record metrics =
  mt_processedCalls :: "processed_call list"
  mt_totalCalls :: nat
  mt_spamCalls :: nat
  mt_spamLikelyCalls :: nat
  mt_intentIdentified :: nat
  mt_transferAttempted :: nat
  mt_routedCalls :: nat
  mt_notRoutedCalls :: nat
  mt_hangupBeforeRoute :: nat
  mt_accountedFor :: nat
  mt_warning :: bool
  mt_notRoutedStats :: duration_stats
  mt_routedStats :: duration_stats

definition countStatus :: "string \<Rightarrow> processed_call list \<Rightarrow> nat" where
  "countStatus tag ps = length (filter (\<lambda>p. p_routingStatus p = tag) ps)"

definition computeMetrics :: "call list \<Rightarrow> (string \<rightharpoonup> enrichment) \<Rightarrow> error + metrics" where
  "computeMetrics calls enrichmentMap =
     (case processCalls calls enrichmentMap of
        Inl err \<Rightarrow> Inl err
      | Inr processedCalls \<Rightarrow>
          let totalCalls = length processedCalls;
              spamCalls = countStatus ''spam'' processedCalls;
              spamLikelyCalls = countStatus ''spam-likely'' processedCalls;
              routedCalls = countStatus ''routed'' processedCalls;
              notRoutedCalls = countStatus ''not-routed'' processedCalls;
              hangupBeforeRoute = countStatus ''hangup-before-route'' processedCalls;
              accountedFor =
                routedCalls + notRoutedCalls + hangupBeforeRoute + spamLikelyCalls + spamCalls;
              notRoutedDurations =
                map p_duration (filter (\<lambda>p. p_notRouted p \<and> p_duration p > 0) processedCalls);
              routedDurations =
                map p_duration (filter (\<lambda>p. p_routed p \<and> p_duration p > 0) processedCalls)
          in Inr \<lparr>mt_processedCalls = processedCalls,
                  mt_totalCalls = totalCalls,
                  mt_spamCalls = spamCalls,
                  mt_spamLikelyCalls = spamLikelyCalls,
                  mt_intentIdentified = length (filter p_intentIdentified processedCalls),
                  mt_transferAttempted = length (filter p_transferAttempted processedCalls),
                  mt_routedCalls = routedCalls,
                  mt_notRoutedCalls = notRoutedCalls,
                  mt_hangupBeforeRoute = hangupBeforeRoute,
                  mt_accountedFor = accountedFor,
                  mt_warning = (accountedFor \<noteq> totalCalls),
                  mt_notRoutedStats = computeDurationStats notRoutedDurations,
                  mt_routedStats = computeDurationStats routedDurations\<rparr>)"

text \<open>The five routing tags.\<close>

definition routingTags :: "string list" where
  "routingTags = [''routed'', ''not-routed'', ''hangup-before-route'', ''spam'', ''spam-likely'']"

text \<open>
  An enrichment map whose stored categories \<open>processCalls\<close> can read: a category is a
  string or falsy (absent, \<open>null\<close>, ...). Every enrichment this pipeline writes is so.
\<close>

definition readableCategory :: "jsval \<Rightarrow> bool" where
  "readableCategory v = (case v of JStr s \<Rightarrow> True | _ \<Rightarrow> \<not> truthy v)"

definition readableEnrichments :: "call list \<Rightarrow> (string \<rightharpoonup> enrichment) \<Rightarrow> bool" where
  "readableEnrichments calls enrichmentMap =
     list_all (\<lambda>c. case enrichmentMap (call_id c) of
                      None \<Rightarrow> True
                    | Some e \<Rightarrow> (case e_classification e of
                                   None \<Rightarrow> True
                                 | Some k \<Rightarrow> readableCategory (category k))) calls"

text \<open>
  The percentile as the specification words it: sort ascending, take the element at index
  \<open>ceil(p/100 * n) - 1\<close> clamped to \<open>[0, n - 1]\<close>, in exact arithmetic; 0 for the
  empty list.
\<close>

definition clamped_index :: "nat \<Rightarrow> rat \<Rightarrow> nat" where
  "clamped_index n p =
     (let i = \<lceil>p / 100 * of_nat n\<rceil> - 1
      in if i < 0 then 0 else if int n - 1 < i then n - 1 else nat i)"

definition spec_percentile :: "rat list \<Rightarrow> rat \<Rightarrow> rat" where
  "spec_percentile vals p =
     (if vals = [] then 0 else sort vals ! clamped_index (length vals) p)"

text \<open>
  The index with the rank computed in doubles: the ceiling of the rounded product of the
  rounded quotient \<open>p / 100\<close> and \<open>n\<close>, less 1, clamped to \<open>[0, n - 1]\<close>.
\<close>

definition double_index :: "nat \<Rightarrow> rat \<Rightarrow> nat" where
  "double_index n p =
     (let i = \<lceil>toDouble (toDouble (p / 100) * of_nat n)\<rceil> - 1
      in if i < 0 then 0 else if int n - 1 < i then n - 1 else nat i)"

text \<open>The durations 1 to 25, and the doubles nearest to 1.638, 2.905 and 2.957.\<close>

definition oneToTwentyFive :: "rat list" where
  "oneToTwentyFive =
     [1, 2, 3, 4, 5, 6, 7, 8, 9, 10, 11, 12, 13, 14, 15, 16, 17, 18, 19, 20, 21, 22, 23, 24, 25]"

definition threeDurations :: "rat list" where
  "threeDurations =
     [toDouble (1638 / 1000), toDouble (2905 / 1000), toDouble (2957 / 1000)]"

section \<open>Example inputs\<close>

text \<open>A call record with every optional field absent; the examples below fill it in.\<close>

definition blankCall :: call where
  "blankCall =
     \<lparr>call_id = ''call-0'',
      call_createdAt = Some ''2026-02-03T14:30:00.000Z'',
      call_startedAt = None,
      call_endedAt = None,
      call_duration = None,
      call_endedReason = None,
      call_destination = None,
      call_toolCalls = None,
      call_messages = None,
      call_structuredOutputs = None,
      call_successEvaluation = NoEvaluation,
      call_transcript = None,
      call_summary = None\<rparr>"

text \<open>A forwarded call of three seconds with no messages.\<close>

definition forwardedShortCall :: call where
  "forwardedShortCall =
     blankCall\<lparr>call_id := ''call-1'', call_duration := Some 3, call_messages := Some [],
               call_endedReason := Some ''assistant-forwarded-call''\<rparr>"

text \<open>A call of three seconds with no messages that the customer ended.\<close>

definition silentShortCall :: call where
  "silentShortCall =
     blankCall\<lparr>call_id := ''call-2'', call_duration := Some 3, call_messages := Some [],
               call_endedReason := Some ''customer-ended-call''\<rparr>"

text \<open>A call of one minute in which the customer spoke.\<close>

definition spokenCall :: call where
  "spokenCall =
     blankCall\<lparr>call_id := ''call-3'', call_startedAt := Some 1000, call_endedAt := Some 61000,
               call_endedReason := Some ''customer-ended-call'',
               call_messages := Some [\<lparr>m_role = Some ''user'', m_message = Some '' hello '',
                                        m_toolCalls = None\<rparr>]\<rparr>"

text \<open>A stored enrichment with the category spam.\<close>

definition spamEnrichment :: "string \<Rightarrow> enrichment" where
  "spamEnrichment cid =
     \<lparr>e_callId = cid,
      e_createdAt = Some ''2026-02-03T14:30:00.000Z'',
      e_enrichedAt = Some ''2026-02-03T15:00:12.345Z'',
      e_model = ''gpt-4o-mini'',
      e_classification =
        Some \<lparr>category = JStr ''Spam'', hangupType = JNull, transferReason = JNull,
              spamType = JStr ''wrong-number'', bookingStatus = ''none''\<rparr>\<rparr>"

text \<open>
  A call of three minutes that the customer ended, with the structured output
  \<open>Appointment Booked\<close> true.
\<close>

definition bookedHangupCall :: call where
  "bookedHangupCall =
     blankCall\<lparr>call_id := ''call-4'', call_duration := Some 180,
               call_endedReason := Some ''customer-ended-call'',
               call_structuredOutputs :=
                 Some [(''7f3a'', \<lparr>so_name = Some ''Appointment Booked'',
                                   so_result = JBool True\<rparr>)]\<rparr>"

text \<open>The time of a run.\<close>

definition exampleNow :: string where
  "exampleNow = ''2026-02-03T15:00:12.345Z''"

text \<open>
  A call of three minutes with the structured output \<open>Appointment Booked\<close> true under
  the key the model-assisted path reads.
\<close>

definition flaggedCall :: call where
  "flaggedCall =
     blankCall\<lparr>call_id := ''call-5'', call_startedAt := Some 0, call_endedAt := Some 180000,
               call_endedReason := Some ''customer-ended-call'',
               call_structuredOutputs :=
                 Some [(''Appointment Booked'', \<lparr>so_name = Some ''Appointment Booked'',
                                                 so_result = JBool True\<rparr>)]\<rparr>"

text \<open>Replies of the language model for that call.\<close>

definition replyBookedWithReason :: jsval where
  "replyBookedWithReason =
     JObj [(''calls'', JArr [JObj [(''callId'', JStr ''call-5''),
                                  (''category'', JStr ''booking-completed''),
                                  (''transferReason'', JStr ''sales''),
                                  (''spamType'', JNull),
                                  (''hangupType'', JNull)]])]"

definition replySpam :: jsval where
  "replySpam =
     JObj [(''calls'', JArr [JObj [(''callId'', JStr ''call-5''),
                                  (''category'', JStr ''spam''),
                                  (''transferReason'', JNull),
                                  (''spamType'', JStr ''wrong-number''),
                                  (''hangupType'', JNull)]])]"

text \<open>A forwarded call of one minute, and a reply that names no call.\<close>

definition forwardedCall :: call where
  "forwardedCall =
     blankCall\<lparr>call_id := ''call-6'', call_startedAt := Some 0, call_endedAt := Some 60000,
               call_endedReason := Some ''assistant-forwarded-call''\<rparr>"

definition emptyReply :: jsval where
  "emptyReply = JObj [(''calls'', JArr [])]"

text \<open>
  Two calls with a success evaluation that reports success: a booking, and a transfer.
\<close>

definition evaluatedBookingCall :: call where
  "evaluatedBookingCall =
     blankCall\<lparr>call_id := ''call-7'', call_startedAt := Some 0, call_endedAt := Some 95400,
               call_endedReason := Some ''assistant-ended-call'',
               call_successEvaluation :=
                 EvaluationText (Some (JObj [(''call_success'', JStr ''yes''),
                   (''final_outcome'', JStr ''Appointment scheduled for Tuesday'')]))\<rparr>"

definition evaluatedTransferCall :: call where
  "evaluatedTransferCall =
     blankCall\<lparr>call_id := ''call-8'', call_startedAt := Some 0, call_endedAt := Some 60000,
               call_endedReason := Some ''customer-ended-call'',
               call_successEvaluation :=
                 EvaluationText (Some (JObj [(''call_success'', JStr ''yes''),
                   (''final_outcome'', JStr ''Caller was transferred to scheduling for an appointment'')]))\<rparr>"

text \<open>
  A date key for time stamps in ISO form: the date part of the text. It stands in for
  \<open>format(new Date(createdAt), 'yyyy-MM-dd')\<close> in the examples.
\<close>

definition isoDateKey :: "string \<Rightarrow> string option" where
  "isoDateKey t = (if 10 \<le> length t then Some (take 10 t) else None)"

text \<open>An enrichment with the category \<open>booking-completed\<close>, not yet time-stamped.\<close>

definition bookedEnrichment :: "string \<Rightarrow> enrichment" where
  "bookedEnrichment cid =
     \<lparr>e_callId = cid,
      e_createdAt = Some ''2026-02-03T14:30:00.000Z'',
      e_enrichedAt = None,
      e_model = ''gpt-4o-mini'',
      e_classification =
        Some \<lparr>category = JStr ''booking-completed'', hangupType = JNull,
              transferReason = JNull, spamType = JNull,
              bookingStatus = ''booking-attempt''\<rparr>\<rparr>"

text \<open>A store with one daily file that holds the record of one call.\<close>

definition exampleStore :: store where
  "exampleStore = [''2026-02-03'' \<mapsto> [''call-9'' \<mapsto> spamEnrichment ''call-9'']]"

section \<open>Properties of the double-precision arithmetic\<close>

lemma roundHalfEven_eqI:
  assumes "\<bar>y - of_int m\<bar> < 1 / 2"
  shows "roundHalfEven y = m"
proof -
  define f where "f = \<lfloor>y\<rfloor>"
  define r where "r = y - of_int f"
  have f: "of_int f \<le> y" "y < of_int f + 1" unfolding f_def by linarith+
  from assms have m: "y - 1 / 2 < of_int m" "of_int m < y + 1 / 2" by linarith+
  show ?thesis
  proof (cases "r < 1 / 2")
    case True
    then have "y < of_int f + 1 / 2" by (simp add: r_def)
    with m f have "of_int f - 1 / 2 < (of_int m :: rat)" "(of_int m :: rat) < of_int f + 1"
      by linarith+
    then have "(of_int (f - 1) :: rat) < of_int m" "(of_int m :: rat) < of_int (f + 1)"
      by simp_all
    then have "f - 1 < m" "m < f + 1" by (simp_all only: of_int_less_iff)
    then have "m = f" by simp
    with True show ?thesis by (simp add: roundHalfEven_def Let_def f_def r_def)
  next
    case False
    show ?thesis
    proof (cases "1 / 2 < r")
      case True
      then have "of_int f + 1 / 2 < y" by (simp add: r_def)
      with m f have "(of_int f :: rat) < of_int m"
        "(of_int m :: rat) < of_int f + 1 + 1 / 2 + 1 / 2" by linarith+
      then have "(of_int f :: rat) < of_int m" "(of_int m :: rat) < of_int (f + 2)"
        by simp_all
      then have "f < m" "m < f + 2" by (simp_all only: of_int_less_iff)
      then have "m = f + 1" by simp
      with True False show ?thesis by (simp add: roundHalfEven_def Let_def f_def r_def)
    next
      case half: False
      with False have "r = 1 / 2" by simp
      then have y: "y = of_int f + 1 / 2" by (simp add: r_def)
      with m have "(of_int f :: rat) < of_int m" "(of_int m :: rat) < of_int f + 1"
        by linarith+
      then have "(of_int f :: rat) < of_int m" "(of_int m :: rat) < of_int (f + 1)"
        by simp_all
      then have "f < m" "m < f + 1" by (simp_all only: of_int_less_iff)
      then show ?thesis by simp
    qed
  qed
qed

lemma roundHalfEven_tie:
  assumes "y = of_int f + 1 / 2"
  shows "roundHalfEven y = (if even f then f else f + 1)"
proof -
  have "\<lfloor>y\<rfloor> = f" unfolding assms by (rule floor_unique) simp_all
  then show ?thesis by (simp add: roundHalfEven_def Let_def assms)
qed

lemma roundHalfEven_of_int: "roundHalfEven (of_int k) = k"
  by (rule roundHalfEven_eqI) simp

lemma nat_power_bounds_rat:
  assumes "0 < c" and "2 ^ (l - 1) \<le> nat c" and "nat c < 2 ^ l"
  shows "(2::rat) ^ (l - 1) \<le> of_int c" and "(of_int c :: rat) < 2 ^ l"
proof -
  from assms(1,2) have "int (2 ^ (l - 1)) \<le> c" by linarith
  then have "(of_int (int (2 ^ (l - 1))) :: rat) \<le> of_int c" by (simp only: of_int_le_iff)
  then show "(2::rat) ^ (l - 1) \<le> of_int c" by simp
  from assms(1,3) have "c < int (2 ^ l)" by linarith
  then have "(of_int c :: rat) < of_int (int (2 ^ l))" by (simp only: of_int_less_iff)
  then show "(of_int c :: rat) < 2 ^ l" by simp
qed

lemma exponentOf_bounds:
  assumes "x \<noteq> 0"
  shows "2 powi exponentOf x \<le> \<bar>x\<bar> \<and> \<bar>x\<bar> < 2 powi (exponentOf x + 1)"
proof -
  obtain a b where q: "quotient_of \<bar>x\<bar> = (a, b)" by (cases "quotient_of \<bar>x\<bar>")
  then have b: "0 < b" by (rule quotient_of_denom_pos)
  from q have x: "\<bar>x\<bar> = of_int a / of_int b" by (rule quotient_of_div)
  from assms have "0 < \<bar>x\<bar>" by simp
  with x b have a: "0 < a" by (simp add: zero_less_divide_iff)
  define la where "la = floorlog 2 (nat a)"
  define lb where "lb = floorlog 2 (nat b)"
  have ba: "2 ^ (la - 1) \<le> nat a" "nat a < 2 ^ la"
    using floorlog_bounds [of "nat a" 2] a by (simp_all add: la_def)
  have bb: "2 ^ (lb - 1) \<le> nat b" "nat b < 2 ^ lb"
    using floorlog_bounds [of "nat b" 2] b by (simp_all add: lb_def)
  have la: "0 < la" using a by (simp add: la_def floorlog_def)
  have lb: "0 < lb" using b by (simp add: lb_def floorlog_def)
  note ra = nat_power_bounds_rat [OF a ba]
  note rb = nat_power_bounds_rat [OF b bb]
  define k where "k = int la - int lb"
  have pk1: "(2::rat) powi (k + 1) = 2 ^ la / 2 ^ (lb - 1)"
  proof -
    have "k + 1 = int la - int (lb - 1)" using lb by (simp add: k_def)
    then show ?thesis by (simp only: power_int_diff) (simp add: power_int_diff)
  qed
  have pkm: "(2::rat) powi (k - 1) = 2 ^ (la - 1) / 2 ^ lb"
  proof -
    have "k - 1 = int (la - 1) - int lb" using la by (simp add: k_def)
    then show ?thesis by (simp only: power_int_diff) (simp add: power_int_diff)
  qed
  have upper: "\<bar>x\<bar> < 2 powi (k + 1)"
  proof -
    have "of_int a / of_int b < (2::rat) ^ la / of_int b"
      using ra(2) b by (simp add: divide_strict_right_mono)
    also have "\<dots> \<le> 2 ^ la / 2 ^ (lb - 1)"
      using rb(1) b by (intro divide_left_mono mult_pos_pos) simp_all
    finally show ?thesis by (simp add: x pk1)
  qed
  have lower: "2 powi (k - 1) \<le> \<bar>x\<bar>"
  proof -
    have "(2::rat) ^ (la - 1) / 2 ^ lb \<le> 2 ^ (la - 1) / of_int b"
      using rb(2) b by (intro divide_left_mono mult_pos_pos) simp_all
    also have "\<dots> \<le> of_int a / of_int b"
      using ra(1) b by (simp add: divide_right_mono)
    finally show ?thesis by (simp add: x pkm)
  qed
  have e: "exponentOf x = (if 2 powi k \<le> \<bar>x\<bar> then k else k - 1)"
    by (simp add: exponentOf_def Let_def q la_def lb_def k_def)
  show ?thesis
  proof (cases "2 powi k \<le> \<bar>x\<bar>")
    case True
    with e upper show ?thesis by simp
  next
    case False
    with e lower show ?thesis by simp
  qed
qed

lemma exponentOf_unique:
  assumes "x \<noteq> 0" and "2 powi E \<le> \<bar>x\<bar>" and "\<bar>x\<bar> < 2 powi (E + 1)"
  shows "exponentOf x = E"
proof -
  from exponentOf_bounds [OF assms(1)] have
    b: "2 powi exponentOf x \<le> \<bar>x\<bar>" "\<bar>x\<bar> < 2 powi (exponentOf x + 1)" by simp_all
  have "(2::rat) powi exponentOf x < 2 powi (E + 1)" using b(1) assms(3) by simp
  then have 1: "exponentOf x < E + 1"
    by (metis not_less power_int_increasing one_le_numeral)
  have "(2::rat) powi E < 2 powi (exponentOf x + 1)" using b(2) assms(2) by simp
  then have 2: "E < exponentOf x + 1"
    by (metis not_less power_int_increasing one_le_numeral)
  from 1 2 show ?thesis by simp
qed

lemma toDouble_eqI:
  assumes "x \<noteq> 0" and "2 powi E \<le> \<bar>x\<bar>" and "\<bar>x\<bar> < 2 powi (E + 1)"
    and "e = max (E - 52) (- 1074)"
    and "\<bar>x / 2 powi e - of_int m\<bar> < 1 / 2"
  shows "toDouble x = of_int m * 2 powi e"
  using assms(1,4) exponentOf_unique [OF assms(1,2,3)] roundHalfEven_eqI [OF assms(5)]
  by (simp add: toDouble_def Let_def)

lemma toDouble_tieI:
  assumes "x \<noteq> 0" and "2 powi E \<le> \<bar>x\<bar>" and "\<bar>x\<bar> < 2 powi (E + 1)"
    and "e = max (E - 52) (- 1074)"
    and "x / 2 powi e = of_int f + 1 / 2"
  shows "toDouble x = of_int (if even f then f else f + 1) * 2 powi e"
  using assms(1,4) exponentOf_unique [OF assms(1,2,3)] roundHalfEven_tie [OF assms(5)]
  by (simp add: toDouble_def Let_def)

text \<open>A number with a significand below \<open>2^53\<close> is a double, and rounding leaves it.\<close>

lemma toDouble_representable:
  assumes "x = of_int m * 2 powi e" and "\<bar>m\<bar> < 2 ^ 53" and "- 1074 \<le> e"
  shows "toDouble x = x"
proof (cases "x = 0")
  case True
  then show ?thesis by (simp add: toDouble_def)
next
  case False
  define E where "E = exponentOf x"
  define e' where "e' = max (E - 52) (- 1074)"
  from exponentOf_bounds [OF False] have lo: "2 powi E \<le> \<bar>x\<bar>" by (simp add: E_def)
  have "\<bar>x\<bar> = of_int \<bar>m\<bar> * 2 powi e"
    by (simp add: assms(1) abs_mult power_int_abs)
  also have "\<dots> < of_int (2 ^ 53) * 2 powi e"
    using assms(2)
    by (intro mult_strict_right_mono)
      (simp_all only: of_int_less_iff zero_less_power_int zero_less_numeral)
  also have "\<dots> = 2 powi (53 + e)"
    by (simp add: power_int_add)
  finally have "(2::rat) powi E < 2 powi (53 + e)" using lo by simp
  then have "E < 53 + e" by (metis not_less power_int_increasing one_le_numeral)
  then have le: "e' \<le> e" using assms(3) by (simp add: e'_def)
  define k where "k = m * 2 ^ nat (e - e')"
  have "(2::rat) powi e = 2 powi (e - e') * 2 powi e'"
    by (simp flip: power_int_add)
  also have "(2::rat) powi (e - e') = 2 ^ nat (e - e')"
    using le by (simp add: power_int_nonneg_exp)
  finally have pe: "(2::rat) powi e = 2 ^ nat (e - e') * 2 powi e'" .
  have xk: "x = of_int k * 2 powi e'"
    by (simp add: assms(1) pe k_def)
  then have "x / 2 powi e' = of_int k" by simp
  then have "roundHalfEven (x / 2 powi e') = k" by (simp add: roundHalfEven_of_int)
  then have "toDouble x = of_int k * 2 powi e'"
    using False by (simp add: toDouble_def Let_def E_def e'_def)
  with xk show ?thesis by simp
qed

lemma toDouble_of_nat: "n < 2 ^ 53 \<Longrightarrow> toDouble (of_nat n) = of_nat n"
proof -
  assume "n < 2 ^ 53"
  then have "\<bar>int n\<bar> < 2 ^ 53" by (simp add: of_nat_less_numeral_power_cancel_iff)
  from toDouble_representable [of "of_nat n" "int n" 0, OF _ this] show ?thesis by simp
qed

lemma toDouble_half_of_nat:
  "n < 2 ^ 53 \<Longrightarrow> toDouble (1 / 2 * of_nat n) = 1 / 2 * of_nat n"
proof -
  assume "n < 2 ^ 53"
  then have "\<bar>int n\<bar> < 2 ^ 53" by (simp add: of_nat_less_numeral_power_cancel_iff)
  from toDouble_representable [of "1 / 2 * of_nat n" "int n" "- 1", OF _ this] show ?thesis
    by (simp add: power_int_minus)
qed

lemma toDouble_half: "toDouble (1 / 2) = 1 / 2"
  using toDouble_representable [of "1 / 2" 1 "- 1"] by (simp add: power_int_minus)

lemma toDouble_one: "toDouble 1 = 1"
  using toDouble_representable [of 1 1 0] by simp

text \<open>The roundings of the examples.\<close>

lemma toDouble_60: "toDouble 60 = 60"
  using toDouble_representable [of 60 60 0] by simp

lemma toDouble_180: "toDouble 180 = 180"
  using toDouble_representable [of 180 180 0] by simp

lemma toDouble_9_10: "toDouble (9 / 10) = 8106479329266893 / 9007199254740992"
  using toDouble_eqI [of "9 / 10" "- 1" "- 53" 8106479329266893] by simp

lemma toDouble_9_10_times_5: "toDouble (8106479329266893 / 9007199254740992 * 5) = 9 / 2"
  using toDouble_eqI [of "8106479329266893 / 9007199254740992 * 5" 2 "- 50" 5066549580791808]
  by simp

lemma toDouble_7_25: "toDouble (7 / 25) = 1261007895663739 / 4503599627370496"
  using toDouble_eqI [of "7 / 25" "- 2" "- 54" 5044031582654956] by simp

lemma toDouble_7_25_times_25:
  "toDouble (1261007895663739 / 4503599627370496 * 25) = 7881299347898369 / 1125899906842624"
  using toDouble_eqI [of "1261007895663739 / 4503599627370496 * 25" 2 "- 50" 7881299347898369]
  by simp

lemma ceiling_rat_eqI: "of_int a - 1 < (x::rat) \<Longrightarrow> x \<le> of_int a \<Longrightarrow> \<lceil>x\<rceil> = a"
  by (simp add: ceiling_eq_iff)

lemma rank_90_5: "\<lceil>toDouble (toDouble (9 / 10) * 5)\<rceil> = 5"
  unfolding toDouble_9_10 toDouble_9_10_times_5 by (rule ceiling_rat_eqI) simp_all

lemma rank_28_25: "\<lceil>toDouble (toDouble (7 / 25) * 25)\<rceil> = 8"
  unfolding toDouble_7_25 toDouble_7_25_times_25 by (rule ceiling_rat_eqI) simp_all

lemma rank_50_5: "\<lceil>toDouble (toDouble (1 / 2) * 5)\<rceil> = 3"
proof -
  have "toDouble (1 / 2 * of_nat 5) = 1 / 2 * of_nat 5" by (rule toDouble_half_of_nat) simp
  then have "toDouble (toDouble (1 / 2) * 5) = 5 / 2" by (simp add: toDouble_half)
  then show ?thesis by (simp add: ceiling_eq_iff)
qed

lemma rank_100_5: "\<lceil>toDouble (toDouble 1 * 5)\<rceil> = 5"
proof -
  have "toDouble (of_nat 5) = of_nat 5" by (rule toDouble_of_nat) simp
  then show ?thesis by (simp add: toDouble_one)
qed

lemma roundHalfEven_le: "y \<le> of_int k \<Longrightarrow> roundHalfEven y \<le> k"
proof -
  assume y: "y \<le> of_int k"
  have "of_int \<lfloor>y\<rfloor> \<le> y" by simp
  with y have "(of_int \<lfloor>y\<rfloor> :: rat) \<le> of_int k" by linarith
  then have f: "\<lfloor>y\<rfloor> \<le> k" by (simp only: of_int_le_iff)
  have g: "\<lfloor>y\<rfloor> + 1 \<le> k" if "1 / 2 \<le> y - of_int \<lfloor>y\<rfloor>"
  proof -
    from that y have "(of_int \<lfloor>y\<rfloor> :: rat) < of_int k" by linarith
    then have "\<lfloor>y\<rfloor> < k" by (simp only: of_int_less_iff)
    then show ?thesis by simp
  qed
  show ?thesis
  proof (cases "y - of_int \<lfloor>y\<rfloor> < 1 / 2")
    case True
    with f show ?thesis by (simp add: roundHalfEven_def Let_def)
  next
    case False
    then have "\<lfloor>y\<rfloor> + 1 \<le> k" using g by simp
    with f show ?thesis by (simp add: roundHalfEven_def Let_def)
  qed
qed

lemma roundHalfEven_ge: "of_int k \<le> y \<Longrightarrow> k \<le> roundHalfEven y"
proof -
  assume "of_int k \<le> y"
  then have "k \<le> \<lfloor>y\<rfloor>" by (simp add: le_floor_iff)
  then show ?thesis by (simp add: roundHalfEven_def Let_def)
qed

text \<open>A double that bounds a positive number bounds its rounding.\<close>

lemma powi_less_cancel: "(2::rat) powi a < 2 powi b \<Longrightarrow> a < b"
  by (metis not_less power_int_increasing one_le_numeral)

lemma representable_scaled:
  assumes "e \<le> j"
  shows "of_int m * (2::rat) powi j = of_int (m * 2 ^ nat (j - e)) * 2 powi e"
proof -
  have "(2::rat) powi j = 2 powi (j - e) * 2 powi e"
    by (simp flip: power_int_add)
  also have "(2::rat) powi (j - e) = 2 ^ nat (j - e)"
    using assms by (simp add: power_int_nonneg_exp)
  finally show ?thesis by simp
qed

lemma significand_bound:
  assumes "\<bar>m\<bar> < 2 ^ 53"
  shows "of_int m * (2::rat) powi j < 2 powi (j + 53)"
proof -
  from assms have "m < 2 ^ 53" by linarith
  then have "(of_int m :: rat) < of_int (2 ^ 53)" by (simp only: of_int_less_iff)
  then have "of_int m * (2::rat) powi j < of_int (2 ^ 53) * 2 powi j"
    by (rule mult_strict_right_mono) simp
  also have "of_int (2 ^ 53) * (2::rat) powi j = 2 powi (j + 53)"
    by (simp add: power_int_add)
  finally show ?thesis .
qed

lemma toDouble_pos_unfold:
  "0 < x \<Longrightarrow>
   toDouble x = of_int (roundHalfEven (x / 2 powi max (exponentOf x - 52) (- 1074)))
                * 2 powi max (exponentOf x - 52) (- 1074)"
  by (simp add: toDouble_def Let_def)

lemma toDouble_le:
  assumes "0 < x" and "x \<le> of_int m * 2 powi j" and "\<bar>m\<bar> < 2 ^ 53" and "- 1074 \<le> j"
  shows "toDouble x \<le> of_int m * 2 powi j"
proof -
  define E where "E = exponentOf x"
  define e where "e = max (E - 52) (- 1074)"
  from assms(1) have x0: "x \<noteq> 0" by simp
  from exponentOf_bounds [OF x0] assms(1) have lo: "2 powi E \<le> x" by (simp add: E_def)
  have p: "(0::rat) < 2 powi e" by simp
  have ej: "e \<le> j"
  proof (rule ccontr)
    assume "\<not> e \<le> j"
    then have "j + 53 \<le> E" using assms(4) by (simp add: e_def)
    then have "(2::rat) powi (j + 53) \<le> 2 powi E" by (simp add: power_int_increasing)
    moreover have "of_int m * (2::rat) powi j < 2 powi (j + 53)"
      using assms(3) by (rule significand_bound)
    ultimately show False using lo assms(2) by linarith
  qed
  define k where "k = m * 2 ^ nat (j - e)"
  have b: "of_int m * (2::rat) powi j = of_int k * 2 powi e"
    unfolding k_def using ej by (rule representable_scaled)
  with assms(2) have "x \<le> of_int k * 2 powi e" by simp
  then have "x / 2 powi e \<le> of_int k" using p by (simp add: pos_divide_le_eq)
  then have "roundHalfEven (x / 2 powi e) \<le> k" by (rule roundHalfEven_le)
  then have "(of_int (roundHalfEven (x / 2 powi e)) :: rat) \<le> of_int k"
    by (simp only: of_int_le_iff)
  then have "of_int (roundHalfEven (x / 2 powi e)) * 2 powi e \<le> of_int k * (2::rat) powi e"
    using p by (simp only: mult_le_cancel_right_pos)
  then show ?thesis
    unfolding b toDouble_pos_unfold [OF assms(1)] e_def E_def .
qed

lemma toDouble_ge:
  assumes "0 < x" and "of_int m * 2 powi j \<le> x" and "\<bar>m\<bar> < 2 ^ 53" and "- 1074 \<le> j"
  shows "of_int m * 2 powi j \<le> toDouble x"
proof -
  define E where "E = exponentOf x"
  define e where "e = max (E - 52) (- 1074)"
  from assms(1) have x0: "x \<noteq> 0" by simp
  from exponentOf_bounds [OF x0] assms(1) have lo: "2 powi E \<le> x" by (simp add: E_def)
  have p: "(0::rat) < 2 powi e" by simp
  have td: "toDouble x = of_int (roundHalfEven (x / 2 powi e)) * 2 powi e"
    unfolding toDouble_pos_unfold [OF assms(1)] e_def E_def ..
  show ?thesis
  proof (cases "e \<le> j")
    case True
    define k where "k = m * 2 ^ nat (j - e)"
    have b: "of_int m * (2::rat) powi j = of_int k * 2 powi e"
      unfolding k_def using True by (rule representable_scaled)
    with assms(2) have "of_int k * 2 powi e \<le> x" by simp
    then have "of_int k \<le> x / 2 powi e" using p by (simp add: pos_le_divide_eq)
    then have "k \<le> roundHalfEven (x / 2 powi e)" by (rule roundHalfEven_ge)
    then have "(of_int k :: rat) \<le> of_int (roundHalfEven (x / 2 powi e))"
      by (simp only: of_int_le_iff)
    then have "of_int k * (2::rat) powi e \<le> of_int (roundHalfEven (x / 2 powi e)) * 2 powi e"
      using p by (simp only: mult_le_cancel_right_pos)
    then show ?thesis unfolding b td .
  next
    case False
    then have e: "e = E - 52" and jE: "j + 53 \<le> E" using assms(4) by (simp_all add: e_def)
    have "(2::rat) powi E = of_int (2 ^ 52) * 2 powi e"
      unfolding e by (simp add: power_int_diff)
    with lo have "of_int (2 ^ 52) * 2 powi e \<le> x" by simp
    then have "of_int (2 ^ 52) \<le> x / 2 powi e" using p by (simp only: pos_le_divide_eq)
    then have "2 ^ 52 \<le> roundHalfEven (x / 2 powi e)" by (rule roundHalfEven_ge)
    then have "(of_int (2 ^ 52) :: rat) \<le> of_int (roundHalfEven (x / 2 powi e))"
      by (simp only: of_int_le_iff)
    then have "of_int (2 ^ 52) * (2::rat) powi e \<le> of_int (roundHalfEven (x / 2 powi e)) * 2 powi e"
      using p by (simp only: mult_le_cancel_right_pos)
    then have "(2::rat) powi E \<le> toDouble x"
      unfolding td e by (simp add: power_int_diff)
    moreover have "(2::rat) powi (j + 53) \<le> 2 powi E"
      using jE by (simp add: power_int_increasing)
    moreover have "of_int m * (2::rat) powi j < 2 powi (j + 53)"
      using assms(3) by (rule significand_bound)
    ultimately show ?thesis by linarith
  qed
qed

text \<open>
  The 90th percentile. The double nearest to 0.9 exceeds it by \<open>1 / (5 * 2^53)\<close>; its
  product with a multiple \<open>10 * k\<close> of ten rounds back to \<open>9 * k\<close>, and its product with
  any other length stays strictly between the same two integers as the exact product.
\<close>

lemma toDouble_9_10_excess: "toDouble (9 / 10) = 9 / 10 + 1 / (5 * 2 ^ 53)"
  unfolding toDouble_9_10 by simp

lemma rank_90_multiple:
  assumes "0 < k" and "k < 2 ^ 46"
  shows "toDouble (toDouble (9 / 10) * of_nat (10 * k)) = of_nat (9 * k)"
proof -
  define x :: rat where "x = of_nat (9 * k) + of_nat k / 2 ^ 52"
  have arg: "toDouble (9 / 10) * of_nat (10 * k) = x"
    unfolding toDouble_9_10_excess x_def by (simp add: field_simps)
  have k1: "(1::rat) \<le> of_nat k" using assms(1) by simp
  have k2: "(of_nat k :: rat) < 2 ^ 46"
    using assms(2) by (simp add: of_nat_less_numeral_power_cancel_iff)
  have x0: "0 < x" using k1 by (simp add: x_def add_pos_nonneg)
  have xlo: "9 * of_nat k < x" using k1 by (simp add: x_def)
  have xhi: "x < 2 powi 53"
  proof -
    have "of_nat k / (2::rat) ^ 52 \<le> of_nat k" by (simp add: divide_le_eq_1 field_simps)
    then have "x \<le> 10 * of_nat k" by (simp add: x_def)
    also have "\<dots> < 10 * 2 ^ 46" using k2 by simp
    also have "\<dots> < (2::rat) powi 53" by simp
    finally show ?thesis .
  qed
  define E where "E = exponentOf x"
  from x0 have xn: "x \<noteq> 0" by simp
  from exponentOf_bounds [OF xn] x0 have lo: "2 powi E \<le> x" and hi: "x < 2 powi (E + 1)"
    by (simp_all add: E_def)
  from lo xhi have "(2::rat) powi E < 2 powi 53" by simp
  then have E53: "E < 53" by (rule powi_less_cancel)
  have "(2::rat) powi 3 < 2 powi (E + 1)" using xlo hi k1 by simp
  then have E3: "3 < E + 1" by (rule powi_less_cancel)
  define e where "e = E - 52"
  have e: "max (E - 52) (- 1074) = e" using E3 by (simp add: e_def)
  have e0: "e \<le> 0" using E53 by (simp add: e_def)
  define K where "K = int (9 * k) * 2 ^ nat (0 - e)"
  have "of_int (int (9 * k)) * (2::rat) powi 0 = of_int K * 2 powi e"
    unfolding K_def using e0 by (rule representable_scaled)
  then have nine: "(of_nat (9 * k) :: rat) = of_int K * 2 powi e" by simp
  have pE: "(2::rat) powi E = 2 ^ 52 * 2 powi e"
    unfolding e_def by (simp add: power_int_diff)
  have "x / 2 powi e - of_int K = of_nat k / 2 ^ 52 / 2 powi e"
    unfolding x_def nine by (simp add: add_divide_distrib)
  also have "\<dots> = of_nat k / 2 powi E" unfolding pE by simp
  finally have diff: "x / 2 powi e - of_int K = of_nat k / 2 powi E" .
  have "2 powi (E + 1) = 2 * (2::rat) powi E" by (simp add: power_int_add)
  with xlo hi have "9 * of_nat k < 2 * (2::rat) powi E" by simp
  then have "2 * of_nat k < (2::rat) powi E" using k1 by linarith
  then have "of_nat k / (2::rat) powi E < 1 / 2" by (simp add: pos_divide_less_eq)
  moreover have "0 \<le> of_nat k / (2::rat) powi E" by simp
  ultimately have "\<bar>x / 2 powi e - of_int K\<bar> < 1 / 2" unfolding diff by simp
  then have "roundHalfEven (x / 2 powi e) = K" by (rule roundHalfEven_eqI)
  then have "toDouble x = of_int K * 2 powi e"
    unfolding toDouble_pos_unfold [OF x0] E_def [symmetric] e by simp
  then show ?thesis unfolding arg nine .
qed

lemma ceiling_between_tenths:
  assumes "\<not> 10 dvd n"
  shows "(of_int \<lceil>9 / 10 * of_nat n :: rat\<rceil> :: rat) - 9 / 10 \<le> 9 / 10 * of_nat n
       \<and> 9 / 10 * (of_nat n :: rat) \<le> of_int \<lceil>9 / 10 * of_nat n :: rat\<rceil> - 1 / 10"
proof -
  define c where "c = \<lceil>9 / 10 * of_nat n :: rat\<rceil>"
  define d where "d = 10 * c - 9 * int n"
  have dr: "(of_int d :: rat) = 10 * of_int c - 9 * of_nat n" by (simp add: d_def)
  have "of_int c - 1 < 9 / 10 * (of_nat n :: rat)" "9 / 10 * (of_nat n :: rat) \<le> of_int c"
    unfolding c_def by linarith+
  then have "(of_int 0 :: rat) \<le> of_int d" "(of_int d :: rat) < of_int 10"
    unfolding dr by simp_all
  then have d: "0 \<le> d" "d < 10" by (simp_all only: of_int_le_iff of_int_less_iff)
  have "d \<noteq> 0"
  proof
    assume "d = 0"
    then have "9 * int n = 10 * c" by (simp add: d_def)
    then have "10 dvd 9 * int n" by simp
    then have "10 dvd int n" by presburger
    then have "10 dvd n" by presburger
    with assms show False by simp
  qed
  with d have "1 \<le> d" "d \<le> 9" by simp_all
  then have "(of_int 1 :: rat) \<le> of_int d" "(of_int d :: rat) \<le> of_int 9"
    by (simp_all only: of_int_le_iff)
  then show ?thesis unfolding dr c_def [symmetric] by simp
qed

lemma rank_90_exact:
  assumes "n < 2 ^ 49"
  shows "\<lceil>toDouble (toDouble (9 / 10) * of_nat n)\<rceil> = \<lceil>9 / 10 * of_nat n :: rat\<rceil>"
proof (cases "10 dvd n")
  case True
  then obtain k where n: "n = 10 * k" by (auto simp: dvd_def)
  show ?thesis
  proof (cases "k = 0")
    case True
    then show ?thesis by (simp add: n toDouble_def)
  next
    case False
    then have "0 < k" by simp
    moreover have "k < 2 ^ 46" using assms n by simp
    ultimately have "toDouble (toDouble (9 / 10) * of_nat (10 * k)) = of_nat (9 * k)"
      by (rule rank_90_multiple)
    moreover have "9 / 10 * (of_nat (10 * k) :: rat) = of_nat (9 * k)" by simp
    ultimately show ?thesis unfolding n by (simp only:)
  qed
next
  case False
  define c where "c = \<lceil>9 / 10 * of_nat n :: rat\<rceil>"
  define x :: rat where "x = toDouble (9 / 10) * of_nat n"
  from False have n0: "0 < n" by (cases n) simp_all
  then have n1: "(1::rat) \<le> of_nat n" by simp
  have n2: "(of_nat n :: rat) < 2 ^ 49"
    using assms by (simp add: of_nat_less_numeral_power_cancel_iff)
  from ceiling_between_tenths [OF False]
  have t: "of_int c - 9 / 10 \<le> 9 / 10 * (of_nat n :: rat)"
    "9 / 10 * (of_nat n :: rat) \<le> of_int c - 1 / 10"
    by (simp_all add: c_def)
  have xe: "x = 9 / 10 * of_nat n + of_nat n / (5 * 2 ^ 53)"
    unfolding x_def toDouble_9_10_excess by (simp add: field_simps)
  have small: "0 < (of_nat n :: rat) / (5 * 2 ^ 53)" "(of_nat n :: rat) / (5 * 2 ^ 53) < 1 / 80"
    using n1 n2 by simp_all
  have x0: "0 < x" using n1 small unfolding xe by linarith
  have xu: "x \<le> of_int c * 2 powi 0" using t small unfolding xe by simp
  have xl: "of_int (16 * (c - 1) + 1) * 2 powi (- 4) \<le> x"
  proof -
    have "of_int (16 * (c - 1) + 1) * (2::rat) powi (- 4) = of_int c - 1 + 1 / 16"
      by (simp add: power_int_minus field_simps)
    then show ?thesis using t small unfolding xe by linarith
  qed
  have c1: "0 < c"
  proof -
    have "(0::rat) < 9 / 10 * of_nat n" using n1 by simp
    then show ?thesis unfolding c_def by (simp only: zero_less_ceiling)
  qed
  have cn: "c < 2 ^ 49"
  proof -
    have "9 / 10 * (of_nat n :: rat) \<le> of_int (2 ^ 49 - 1)" 
    proof -
      from assms have "int n \<le> 2 ^ 49 - 1" by simp
      then have "(of_int (int n) :: rat) \<le> of_int (2 ^ 49 - 1)" by (simp only: of_int_le_iff)
      then show ?thesis using n1 by simp
    qed
    then have "c \<le> 2 ^ 49 - 1" unfolding c_def by (simp only: ceiling_le_iff)
    then show ?thesis by simp
  qed
  have "toDouble x \<le> of_int c * 2 powi 0"
    using x0 xu by (rule toDouble_le) (use c1 cn in simp_all)
  then have up: "toDouble x \<le> of_int c" by simp
  have "of_int (16 * (c - 1) + 1) * 2 powi (- 4) \<le> toDouble x"
    using x0 xl by (rule toDouble_ge) (use c1 cn in simp_all)
  moreover have "of_int (16 * (c - 1) + 1) * (2::rat) powi (- 4) = of_int c - 1 + 1 / 16"
    by (simp add: power_int_minus field_simps)
  ultimately have low: "of_int c - 1 < toDouble x" by simp
  from low up have "\<lceil>toDouble x\<rceil> = c" by (rule ceiling_rat_eqI)
  then show ?thesis unfolding x_def c_def .
qed

text \<open>
  The average is computed in doubles too. The sum of the doubles nearest to 1.638, 2.905
  and 2.957 is a double just below 7.5, and its third rounds to 2, although the mean of
  1.638, 2.905 and 2.957 is 2.5, which rounds to 3.
\<close>

lemma toDouble_1638: "toDouble (1638 / 1000) = 922112023704109 / 562949953421312"
  using toDouble_eqI [of "1638 / 1000" 0 "- 52" 7376896189632872] by simp

lemma toDouble_2905: "toDouble (2905 / 1000) = 6541478458755645 / 2251799813685248"
  using toDouble_eqI [of "2905 / 1000" 1 "- 51" 6541478458755645] by simp

lemma toDouble_2957: "toDouble (2957 / 1000) = 3329286024533639 / 1125899906842624"
  using toDouble_eqI [of "2957 / 1000" 1 "- 51" 6658572049067278] by simp

lemma threeDurations_sum1:
  "toDouble (0 + 922112023704109 / 562949953421312) = 922112023704109 / 562949953421312"
  using toDouble_representable [of "922112023704109 / 562949953421312" 922112023704109 "- 49"]
  by simp

lemma threeDurations_sum2:
  "toDouble (922112023704109 / 562949953421312 + 6541478458755645 / 2251799813685248)
     = 639370409598255 / 140737488355328"
  using toDouble_tieI [of "922112023704109 / 562949953421312 + 6541478458755645 / 2251799813685248"
      2 "- 50" 5114963276786040]
  by simp

lemma threeDurations_sum3:
  "toDouble (639370409598255 / 140737488355328 + 3329286024533639 / 1125899906842624)
     = 8444249301319679 / 1125899906842624"
  using toDouble_representable [of
      "639370409598255 / 140737488355328 + 3329286024533639 / 1125899906842624"
      8444249301319679 "- 50"]
  by simp

lemma threeDurations_quotient:
  "toDouble (8444249301319679 / 1125899906842624 / 3) = 5629499534213119 / 2251799813685248"
  using toDouble_eqI [of "8444249301319679 / 1125899906842624 / 3" 1 "- 51" 5629499534213119]
  by simp

lemma threeDurations_values:
  "threeDurations = [922112023704109 / 562949953421312, 6541478458755645 / 2251799813685248,
                     3329286024533639 / 1125899906842624]"
  unfolding threeDurations_def toDouble_1638 toDouble_2905 toDouble_2957 ..

lemma threeDurations_avg:
  "avg (computeDurationStats threeDurations) = 2
   \<and> math_round ((1638 / 1000 + 2905 / 1000 + 2957 / 1000) / 3) = 3"
proof -
  have f: "foldl (\<lambda>sum v. toDouble (sum + v)) 0 threeDurations
        = 8444249301319679 / 1125899906842624"
    unfolding threeDurations_values foldl.simps
      threeDurations_sum1 threeDurations_sum2 threeDurations_sum3 ..
  have l: "length threeDurations = 3" by (simp add: threeDurations_def)
  then have "length threeDurations \<noteq> 0" by simp
  then have "avg (computeDurationStats threeDurations)
        = math_round (toDouble (foldl (\<lambda>sum v. toDouble (sum + v)) 0 threeDurations
            / of_nat (length threeDurations)))"
    by (simp add: computeDurationStats_def)
  also have "\<dots> = math_round (toDouble (8444249301319679 / 1125899906842624 / 3))"
    unfolding f l by simp
  also have "\<dots> = math_round (5629499534213119 / 2251799813685248)"
    unfolding threeDurations_quotient ..
  also have "\<dots> = 2" by code_simp
  finally have a: "avg (computeDurationStats threeDurations) = 2" .
  have b: "math_round ((1638 / 1000 + 2905 / 1000 + 2957 / 1000) / 3) = 3"
    by code_simp
  from a b show ?thesis ..
qed

section \<open>Properties of the duration statistics\<close>

lemma clamp_less:
  "0 < n \<Longrightarrow> (if i < 0 then 0 else if int n - 1 < i then n - 1 else nat i) < n"
  for i :: int
  by auto

lemma clamp_max_min:
  "0 < n \<Longrightarrow>
   max 0 (min i (int n - 1)) = int (if i < 0 then 0 else if int n - 1 < i then n - 1 else nat i)"
  by (simp add: max_def min_def)

lemma clamped_index_less: "0 < n \<Longrightarrow> clamped_index n p < n"
  unfolding clamped_index_def Let_def by (rule clamp_less)

lemma double_index_less: "0 < n \<Longrightarrow> double_index n p < n"
  unfolding double_index_def Let_def by (rule clamp_less)

lemma percentile_refines:
  "percentile vals p = Some (if vals = [] then 0 else sort vals ! double_index (length vals) p)"
proof (cases vals)
  case Nil
  then show ?thesis by (simp add: percentile_def)
next
  case (Cons v vs)
  define n where "n = length vals"
  define i where "i = \<lceil>toDouble (toDouble (p / 100) * of_nat n)\<rceil> - 1"
  have n: "0 < n" using Cons by (simp add: n_def)
  have "max 0 (min i (int n - 1)) = int (double_index n p)"
    unfolding double_index_def i_def Let_def using n by (rule clamp_max_min)
  moreover have "double_index n p < n" using n by (rule double_index_less)
  ultimately have
    "js_index (sort vals) (max 0 (min i (int n - 1))) = Some (sort vals ! double_index n p)"
    by (simp add: js_index_def n_def)
  then show ?thesis
    using Cons unfolding percentile_def n_def i_def Let_def by simp
qed

lemma double_index_exact:
  "\<lceil>toDouble (toDouble (p / 100) * of_nat n)\<rceil> = \<lceil>p / 100 * of_nat n\<rceil> \<Longrightarrow>
   double_index n p = clamped_index n p"
  by (simp add: double_index_def clamped_index_def)

lemma double_index_50: "n < 2 ^ 53 \<Longrightarrow> double_index n 50 = clamped_index n 50"
proof (rule double_index_exact)
  assume "n < 2 ^ 53"
  then have h: "toDouble (1 / 2 * of_nat n) = 1 / 2 * of_nat n" by (rule toDouble_half_of_nat)
  have "(50::rat) / 100 = 1 / 2" by simp
  then show "\<lceil>toDouble (toDouble (50 / 100) * of_nat n)\<rceil> = \<lceil>50 / 100 * of_nat n :: rat\<rceil>"
    by (simp only: toDouble_half h)
qed

lemma double_index_100: "n < 2 ^ 53 \<Longrightarrow> double_index n 100 = clamped_index n 100"
proof (rule double_index_exact)
  assume "n < 2 ^ 53"
  then have h: "toDouble (of_nat n) = of_nat n" by (rule toDouble_of_nat)
  have "(100::rat) / 100 = 1" by simp
  then show "\<lceil>toDouble (toDouble (100 / 100) * of_nat n)\<rceil> = \<lceil>100 / 100 * of_nat n :: rat\<rceil>"
    by (simp only: toDouble_one mult_1 h)
qed

lemma double_index_90: "n < 2 ^ 49 \<Longrightarrow> double_index n 90 = clamped_index n 90"
proof (rule double_index_exact)
  assume "n < 2 ^ 49"
  then have h: "\<lceil>toDouble (toDouble (9 / 10) * of_nat n)\<rceil> = \<lceil>9 / 10 * of_nat n :: rat\<rceil>"
    by (rule rank_90_exact)
  have "(90::rat) / 100 = 9 / 10" by simp
  then show "\<lceil>toDouble (toDouble (90 / 100) * of_nat n)\<rceil> = \<lceil>90 / 100 * of_nat n :: rat\<rceil>"
    by (simp only: h)
qed

lemma percentile_exact:
  "double_index (length vals) p = clamped_index (length vals) p \<Longrightarrow>
   percentile vals p = Some (spec_percentile vals p)"
  by (simp add: percentile_refines spec_percentile_def)

lemma five_durations_sorted: "sort [5, 10, 15, 20, 100 :: rat] = [5, 10, 15, 20, 100]"
  by simp

lemma five_durations_50: "percentile [5, 10, 15, 20, 100] 50 = Some 15"
  using rank_50_5 by (simp add: percentile_def js_index_def Let_def)

lemma five_durations_90: "percentile [5, 10, 15, 20, 100] 90 = Some 100"
  using rank_90_5 by (simp add: percentile_def js_index_def Let_def)

lemma five_durations_100: "percentile [5, 10, 15, 20, 100] 100 = Some 100"
  using rank_100_5 by (simp add: percentile_def js_index_def Let_def)

lemma oneToTwentyFive_sorted: "sort oneToTwentyFive = oneToTwentyFive"
  by (simp add: oneToTwentyFive_def)

lemma oneToTwentyFive_length: "length oneToTwentyFive = 25"
  by (simp add: oneToTwentyFive_def)

lemma double_index_25_28: "double_index 25 28 = 7"
  using rank_28_25 by (simp add: double_index_def)

lemma clamped_index_25_28: "clamped_index 25 28 = 6"
proof -
  have "\<lceil>28 / 100 * of_nat 25 :: rat\<rceil> = 7" by (simp add: ceiling_eq_iff)
  then show ?thesis by (simp add: clamped_index_def)
qed

text \<open>
  C3, as the claim states it, fails. For the durations 1 to 25 and the 28th percentile the
  index \<open>ceil(28/100 * 25) - 1\<close> is 6 and the element there is 7; the code divides and
  multiplies in doubles, where \<open>(28 / 100) * 25\<close> is \<open>7.000000000000001\<close>, reads index
  7 and returns 8.
\<close>

theorem percentile_rank_counterexample:
  "percentile oneToTwentyFive 28 = Some 8
   \<and> spec_percentile oneToTwentyFive 28 = 7
   \<and> double_index (length oneToTwentyFive) 28 = 7
   \<and> clamped_index (length oneToTwentyFive) 28 = 6"
proof -
  have a: "percentile oneToTwentyFive 28 = Some (oneToTwentyFive ! 7)"
    by (simp add: percentile_refines oneToTwentyFive_sorted oneToTwentyFive_length
        double_index_25_28) (simp add: oneToTwentyFive_def)
  have b: "spec_percentile oneToTwentyFive 28 = oneToTwentyFive ! 6"
    by (simp add: spec_percentile_def oneToTwentyFive_sorted oneToTwentyFive_length
        clamped_index_25_28) (simp add: oneToTwentyFive_def)
  show ?thesis
    unfolding a b oneToTwentyFive_length double_index_25_28 clamped_index_25_28
    by (simp add: oneToTwentyFive_def)
qed

text \<open>
  C3, amended. The percentile the code computes is the element of the ascending sort at
  the index \<open>ceil(fl(fl(p/100) * n)) - 1\<close> clamped to \<open>[0, n - 1]\<close>, where \<open>fl\<close>
  rounds to the nearest double: the read is always inside the array, so the result is
  never \<open>undefined\<close> and is one of the durations. Whenever that index is the index
  \<open>ceil(p/100 * n) - 1\<close> of exact arithmetic, the result is the percentile as the
  specification words it; it is so for the 50th, the 90th and the 100th percentile of any
  list of fewer than \<open>2^49\<close> durations, hence for the median and the 90th percentile
  that \<open>computeDurationStats\<close> reports. For the list 5, 10, 15, 20, 100 the 50th
  percentile is 15, the 90th and the 100th are 100, and for the empty list the average,
  median and 90th percentile are all 0.
\<close>

theorem percentile_double_rank:
  "percentile vals p
     = Some (if vals = [] then 0 else sort vals ! double_index (length vals) p)
   \<and> (vals \<noteq> [] \<longrightarrow> double_index (length vals) p < length vals
        \<and> sort vals ! double_index (length vals) p \<in> set vals)
   \<and> (double_index (length vals) p = clamped_index (length vals) p \<longrightarrow>
        percentile vals p = Some (spec_percentile vals p))
   \<and> (length vals < 2 ^ 49 \<longrightarrow>
        percentile vals 50 = Some (spec_percentile vals 50)
        \<and> percentile vals 90 = Some (spec_percentile vals 90)
        \<and> percentile vals 100 = Some (spec_percentile vals 100)
        \<and> median (computeDurationStats vals) = Some (spec_percentile vals 50)
        \<and> p90 (computeDurationStats vals) = Some (spec_percentile vals 90))
   \<and> percentile [5, 10, 15, 20, 100] 50 = Some 15
   \<and> percentile [5, 10, 15, 20, 100] 90 = Some 100
   \<and> percentile [5, 10, 15, 20, 100] 100 = Some 100
   \<and> computeDurationStats [] = \<lparr>avg = 0, median = Some 0, p90 = Some 0\<rparr>"
proof -
  have a: "percentile vals p
     = Some (if vals = [] then 0 else sort vals ! double_index (length vals) p)"
    by (rule percentile_refines)
  have b: "vals \<noteq> [] \<longrightarrow> double_index (length vals) p < length vals
        \<and> sort vals ! double_index (length vals) p \<in> set vals"
  proof
    assume ne: "vals \<noteq> []"
    then have lt: "double_index (length vals) p < length vals"
      by (simp add: double_index_less)
    then have "sort vals ! double_index (length vals) p \<in> set (sort vals)"
      by (simp del: set_sort)
    then show "double_index (length vals) p < length vals
        \<and> sort vals ! double_index (length vals) p \<in> set vals"
      using lt by simp
  qed
  have c: "double_index (length vals) p = clamped_index (length vals) p \<longrightarrow>
        percentile vals p = Some (spec_percentile vals p)"
    by (simp add: percentile_exact)
  have d: "length vals < 2 ^ 49 \<longrightarrow>
        percentile vals 50 = Some (spec_percentile vals 50)
        \<and> percentile vals 90 = Some (spec_percentile vals 90)
        \<and> percentile vals 100 = Some (spec_percentile vals 100)
        \<and> median (computeDurationStats vals) = Some (spec_percentile vals 50)
        \<and> p90 (computeDurationStats vals) = Some (spec_percentile vals 90)"
  proof
    assume n: "length vals < 2 ^ 49"
    then have n53: "length vals < 2 ^ 53" by simp
    have p50: "percentile vals 50 = Some (spec_percentile vals 50)"
      using n53 by (intro percentile_exact double_index_50)
    have p90: "percentile vals 90 = Some (spec_percentile vals 90)"
      using n by (intro percentile_exact double_index_90)
    have p100: "percentile vals 100 = Some (spec_percentile vals 100)"
      using n53 by (intro percentile_exact double_index_100)
    have m: "median (computeDurationStats vals) = Some (spec_percentile vals 50)"
      using p50 by (simp add: computeDurationStats_def spec_percentile_def)
    have q: "p90 (computeDurationStats vals) = Some (spec_percentile vals 90)"
      using p90 by (simp add: computeDurationStats_def spec_percentile_def)
    from p50 p90 p100 m q
    show "percentile vals 50 = Some (spec_percentile vals 50)
        \<and> percentile vals 90 = Some (spec_percentile vals 90)
        \<and> percentile vals 100 = Some (spec_percentile vals 100)
        \<and> median (computeDurationStats vals) = Some (spec_percentile vals 50)
        \<and> p90 (computeDurationStats vals) = Some (spec_percentile vals 90)"
      by simp
  qed
  have e: "computeDurationStats [] = \<lparr>avg = 0, median = Some 0, p90 = Some 0\<rparr>"
    by (simp add: computeDurationStats_def)
  from a b c d e five_durations_50 five_durations_90 five_durations_100
  show ?thesis by blast
qed

lemma double_index_3_50: "double_index 3 50 = 1"
proof -
  have "double_index 3 50 = clamped_index 3 50" by (rule double_index_50) simp
  moreover have "\<lceil>50 / 100 * of_nat 3 :: rat\<rceil> = 2" by (simp add: ceiling_eq_iff)
  then have "clamped_index 3 50 = 1" by (simp add: clamped_index_def)
  ultimately show ?thesis by simp
qed

lemma clamped_index_3_90: "clamped_index 3 90 = 2"
proof -
  have "\<lceil>90 / 100 * of_nat 3 :: rat\<rceil> = 3" by (simp add: ceiling_eq_iff)
  then show ?thesis by (simp add: clamped_index_def)
qed

theorem percentile_double_rank_witness:
  "percentile [30, 10, 20] 50 = Some 20
   \<and> double_index (length [30, 10, 20 :: rat]) 50 = 1
   \<and> clamped_index (length [30, 10, 20 :: rat]) 50 = 1
   \<and> spec_percentile [30, 10, 20] 50 = 20
   \<and> sort [30, 10, 20 :: rat] ! double_index (length [30, 10, 20 :: rat]) 50 \<in> set [30, 10, 20]
   \<and> median (computeDurationStats [30, 10, 20]) = Some 20
   \<and> p90 (computeDurationStats [30, 10, 20]) = Some 30"
proof -
  have ne: "[30, 10, 20 :: rat] \<noteq> []" by simp
  have len3: "length [30, 10, 20 :: rat] = 3" by simp
  have len: "length [30, 10, 20 :: rat] < 2 ^ 49" by simp
  have i: "double_index (length [30, 10, 20 :: rat]) 50 = 1"
    unfolding len3 by (rule double_index_3_50)
  have j: "clamped_index (length [30, 10, 20 :: rat]) 50 = 1"
    unfolding len3 using double_index_50 [of 3] double_index_3_50 by simp
  have v: "spec_percentile [30, 10, 20] 50 = 20"
    unfolding spec_percentile_def j by simp
  have w: "spec_percentile [30, 10, 20] 90 = 30"
    unfolding spec_percentile_def len3 clamped_index_3_90 by simp
  from percentile_double_rank [of "[30, 10, 20]" 50] ne len i j v w show ?thesis by simp
qed

section \<open>Properties of the routing status\<close>

lemma mapM_length: "mapM f xs = Inr ys \<Longrightarrow> length ys = length xs"
  by (induction xs arbitrary: ys) (auto split: sum.splits)

lemma mapM_all: "mapM f xs = Inr ys \<Longrightarrow> list_all2 (\<lambda>x y. f x = Inr y) xs ys"
  by (induction xs arbitrary: ys) (auto split: sum.splits)

lemma mapM_total: "list_all (\<lambda>x. \<exists>y. f x = Inr y) xs \<Longrightarrow> \<exists>ys. mapM f xs = Inr ys"
  by (induction xs) (auto split: sum.splits)

lemma routingStatusOf_tag: "routingStatusOf c a s cat \<in> set routingTags"
  by (simp add: routingStatusOf_def routingTags_def)

lemma processCall_status:
  "processCall em c = Inr p \<Longrightarrow> p_routingStatus p \<in> set routingTags"
  by (auto simp: processCall_def Let_def routingStatusOf_tag split: sum.splits prod.splits)

lemma processCalls_status:
  assumes "processCalls calls em = Inr ps"
  shows "list_all (\<lambda>p. p_routingStatus p \<in> set routingTags) ps"
proof -
  from assms have "list_all2 (\<lambda>c p. processCall em c = Inr p) calls ps"
    unfolding processCalls_def by (rule mapM_all)
  then show ?thesis
    by (induction rule: list_all2_induct) (auto dest: processCall_status)
qed

lemma one_tag: "t \<in> set routingTags \<Longrightarrow> length (filter (\<lambda>u. t = u) routingTags) = 1"
  by (auto simp: routingTags_def)

lemma count_partition:
  "list_all (\<lambda>p. p_routingStatus p \<in> set routingTags) ps \<Longrightarrow>
   countStatus ''routed'' ps + countStatus ''not-routed'' ps
     + countStatus ''hangup-before-route'' ps
     + countStatus ''spam-likely'' ps + countStatus ''spam'' ps = length ps"
  by (induction ps) (auto simp: countStatus_def routingTags_def)

lemma readable_processCall:
  "(case em (call_id c) of
      None \<Rightarrow> True
    | Some e \<Rightarrow> (case e_classification e of
                   None \<Rightarrow> True
                 | Some k \<Rightarrow> readableCategory (category k)))
   \<Longrightarrow> \<exists>p. processCall em c = Inr p"
  by (auto simp: processCall_def readClassification_def Let_def readableCategory_def jor_def
      split: option.splits jsval.splits)

lemma readable_processCalls:
  "readableEnrichments calls em \<Longrightarrow> \<exists>ps. processCalls calls em = Inr ps"
  unfolding readableEnrichments_def processCalls_def
  by (rule mapM_total) (auto simp: list_all_iff intro!: readable_processCall)

lemma processCall_fields:
  "processCall em c = Inr p \<Longrightarrow>
   p_callId p = call_id c
   \<and> p_routingStatus p =
       routingStatusOf c (truthy (getTransferIntent c))
         (isSpamLikelyShortNoSpeech c (getCallDuration c)) (p_category p)"
  by (auto simp: processCall_def Let_def split: sum.splits prod.splits)

lemma processCalls_fields:
  assumes "processCalls calls em = Inr ps"
  shows "list_all2
           (\<lambda>c p. processCall em c = Inr p
                \<and> p_callId p = call_id c
                \<and> p_routingStatus p =
                    routingStatusOf c (truthy (getTransferIntent c))
                      (isSpamLikelyShortNoSpeech c (getCallDuration c)) (p_category p))
           calls ps"
proof -
  from assms have "list_all2 (\<lambda>c p. processCall em c = Inr p) calls ps"
    unfolding processCalls_def by (rule mapM_all)
  then show ?thesis
    by (rule list_all2_mono) (simp add: processCall_fields)
qed

text \<open>
  C1. Whenever \<open>computeMetrics\<close> returns, its processed calls are the calls, one for
  one and in order: each is the result of \<open>processCall\<close> on its call, keeps the call's
  identifier and carries the routing status that \<open>routingStatusOf\<close> gives that call,
  which is exactly one of the five routing tags. Each of the five per-status counts is the
  number of processed calls with that tag, and the five counts add up to the total call
  count, which is the number of calls, so the code's bucket warning is never printed.
  \<open>computeMetrics\<close> does return for every enrichment map whose stored categories are
  strings or falsy.
\<close>

theorem routing_partition:
  "(computeMetrics calls em = Inr m \<longrightarrow>
      mt_totalCalls m = length calls
      \<and> length (mt_processedCalls m) = length calls
      \<and> list_all2
           (\<lambda>c p. processCall em c = Inr p
                \<and> p_callId p = call_id c
                \<and> p_routingStatus p =
                    routingStatusOf c (truthy (getTransferIntent c))
                      (isSpamLikelyShortNoSpeech c (getCallDuration c)) (p_category p))
           calls (mt_processedCalls m)
      \<and> mt_routedCalls m
          = length (filter (\<lambda>p. p_routingStatus p = ''routed'') (mt_processedCalls m))
      \<and> mt_notRoutedCalls m
          = length (filter (\<lambda>p. p_routingStatus p = ''not-routed'') (mt_processedCalls m))
      \<and> mt_hangupBeforeRoute m
          = length (filter (\<lambda>p. p_routingStatus p = ''hangup-before-route'')
              (mt_processedCalls m))
      \<and> mt_spamLikelyCalls m
          = length (filter (\<lambda>p. p_routingStatus p = ''spam-likely'') (mt_processedCalls m))
      \<and> mt_spamCalls m
          = length (filter (\<lambda>p. p_routingStatus p = ''spam'') (mt_processedCalls m))
      \<and> mt_routedCalls m + mt_notRoutedCalls m + mt_hangupBeforeRoute m
          + mt_spamLikelyCalls m + mt_spamCalls m = mt_totalCalls m
      \<and> \<not> mt_warning m
      \<and> list_all (\<lambda>p. length (filter (\<lambda>tag. p_routingStatus p = tag) routingTags) = 1)
           (mt_processedCalls m))
   \<and> (readableEnrichments calls em \<longrightarrow> (\<exists>m'. computeMetrics calls em = Inr m'))"
proof (intro conjI impI)
  assume ret: "computeMetrics calls em = Inr m"
  then obtain ps where ps: "processCalls calls em = Inr ps"
    by (auto simp: computeMetrics_def split: sum.splits)
  from ps have len: "length ps = length calls"
    unfolding processCalls_def by (rule mapM_length)
  from ps have tags: "list_all (\<lambda>p. p_routingStatus p \<in> set routingTags) ps"
    by (rule processCalls_status)
  from ret ps have m:
    "mt_processedCalls m = ps" "mt_totalCalls m = length ps"
    "mt_routedCalls m = countStatus ''routed'' ps"
    "mt_notRoutedCalls m = countStatus ''not-routed'' ps"
    "mt_hangupBeforeRoute m = countStatus ''hangup-before-route'' ps"
    "mt_spamLikelyCalls m = countStatus ''spam-likely'' ps"
    "mt_spamCalls m = countStatus ''spam'' ps"
    "mt_warning m = (countStatus ''routed'' ps + countStatus ''not-routed'' ps
       + countStatus ''hangup-before-route'' ps + countStatus ''spam-likely'' ps
       + countStatus ''spam'' ps \<noteq> length ps)"
    by (auto simp: computeMetrics_def Let_def)
  show "mt_totalCalls m = length calls" using m len by simp
  show "length (mt_processedCalls m) = length calls" using m len by simp
  show "list_all2
           (\<lambda>c p. processCall em c = Inr p
                \<and> p_callId p = call_id c
                \<and> p_routingStatus p =
                    routingStatusOf c (truthy (getTransferIntent c))
                      (isSpamLikelyShortNoSpeech c (getCallDuration c)) (p_category p))
           calls (mt_processedCalls m)"
    unfolding m(1) using ps by (rule processCalls_fields)
  show "mt_routedCalls m
          = length (filter (\<lambda>p. p_routingStatus p = ''routed'') (mt_processedCalls m))"
    by (simp only: m countStatus_def)
  show "mt_notRoutedCalls m
          = length (filter (\<lambda>p. p_routingStatus p = ''not-routed'') (mt_processedCalls m))"
    by (simp only: m countStatus_def)
  show "mt_hangupBeforeRoute m
          = length (filter (\<lambda>p. p_routingStatus p = ''hangup-before-route'')
              (mt_processedCalls m))"
    by (simp only: m countStatus_def)
  show "mt_spamLikelyCalls m
          = length (filter (\<lambda>p. p_routingStatus p = ''spam-likely'') (mt_processedCalls m))"
    by (simp only: m countStatus_def)
  show "mt_spamCalls m
          = length (filter (\<lambda>p. p_routingStatus p = ''spam'') (mt_processedCalls m))"
    by (simp only: m countStatus_def)
  show "mt_routedCalls m + mt_notRoutedCalls m + mt_hangupBeforeRoute m
          + mt_spamLikelyCalls m + mt_spamCalls m = mt_totalCalls m"
    using m count_partition [OF tags] by simp
  show "\<not> mt_warning m" using m count_partition [OF tags] by simp
  show "list_all (\<lambda>p. length (filter (\<lambda>tag. p_routingStatus p = tag) routingTags) = 1)
           (mt_processedCalls m)"
    using tags m one_tag by (simp add: list_all_iff)
next
  assume "readableEnrichments calls em"
  then obtain ps where "processCalls calls em = Inr ps"
    using readable_processCalls by blast
  then show "\<exists>m'. computeMetrics calls em = Inr m'"
    by (simp add: computeMetrics_def Let_def)
qed

lemma example_metrics:
  "\<exists>m. computeMetrics [forwardedShortCall, silentShortCall, spokenCall]
            [''call-3'' \<mapsto> spamEnrichment ''call-3''] = Inr m
     \<and> mt_routedCalls m = 1 \<and> mt_notRoutedCalls m = 0 \<and> mt_hangupBeforeRoute m = 0
     \<and> mt_spamLikelyCalls m = 1 \<and> mt_spamCalls m = 1
     \<and> map p_callId (mt_processedCalls m) = [''call-1'', ''call-2'', ''call-3'']
     \<and> map p_routingStatus (mt_processedCalls m) = [''routed'', ''spam-likely'', ''spam'']"
  by (simp add: computeMetrics_def processCalls_def processCall_def readClassification_def
      Let_def forwardedShortCall_def silentShortCall_def spokenCall_def blankCall_def
      spamEnrichment_def getCallDuration_def getTransferIntent_def intentOfTools_def
      isSpamLikelyShortNoSpeech_def hasCustomerSpeech_def matchesWord_def trim_def isSpace_def
      isWordChar_def routingStatusOf_def jor_def toLowerCase_def toLowerChar_def countStatus_def)

theorem routing_partition_witness:
  "readableEnrichments [forwardedShortCall, silentShortCall, spokenCall]
     [''call-3'' \<mapsto> spamEnrichment ''call-3'']
   \<and> (\<exists>m. computeMetrics [forwardedShortCall, silentShortCall, spokenCall]
            [''call-3'' \<mapsto> spamEnrichment ''call-3''] = Inr m
          \<and> mt_totalCalls m = 3
          \<and> length (mt_processedCalls m) = 3
          \<and> map p_callId (mt_processedCalls m) = [''call-1'', ''call-2'', ''call-3'']
          \<and> map p_routingStatus (mt_processedCalls m) = [''routed'', ''spam-likely'', ''spam'']
          \<and> mt_routedCalls m = 1 \<and> mt_notRoutedCalls m = 0 \<and> mt_hangupBeforeRoute m = 0
          \<and> mt_spamLikelyCalls m = 1 \<and> mt_spamCalls m = 1
          \<and> length (filter (\<lambda>p. p_routingStatus p = ''routed'') (mt_processedCalls m)) = 1
          \<and> length (filter (\<lambda>p. p_routingStatus p = ''spam-likely'') (mt_processedCalls m)) = 1
          \<and> length (filter (\<lambda>p. p_routingStatus p = ''spam'') (mt_processedCalls m)) = 1
          \<and> \<not> mt_warning m)"
proof -
  let ?calls = "[forwardedShortCall, silentShortCall, spokenCall]"
  let ?em = "[''call-3'' \<mapsto> spamEnrichment ''call-3'']"
  have r: "readableEnrichments ?calls ?em"
    by (simp add: readableEnrichments_def readableCategory_def forwardedShortCall_def
        silentShortCall_def spokenCall_def blankCall_def spamEnrichment_def)
  from example_metrics obtain m where e: "computeMetrics ?calls ?em = Inr m
     \<and> mt_routedCalls m = 1 \<and> mt_notRoutedCalls m = 0 \<and> mt_hangupBeforeRoute m = 0
     \<and> mt_spamLikelyCalls m = 1 \<and> mt_spamCalls m = 1
     \<and> map p_callId (mt_processedCalls m) = [''call-1'', ''call-2'', ''call-3'']
     \<and> map p_routingStatus (mt_processedCalls m) = [''routed'', ''spam-likely'', ''spam'']" ..
  then have m: "computeMetrics ?calls ?em = Inr m" by (rule conjunct1)
  from routing_partition [of ?calls ?em m] m
  have p: "mt_totalCalls m = length ?calls"
    "length (mt_processedCalls m) = length ?calls"
    "mt_routedCalls m
       = length (filter (\<lambda>p. p_routingStatus p = ''routed'') (mt_processedCalls m))"
    "mt_spamLikelyCalls m
       = length (filter (\<lambda>p. p_routingStatus p = ''spam-likely'') (mt_processedCalls m))"
    "mt_spamCalls m
       = length (filter (\<lambda>p. p_routingStatus p = ''spam'') (mt_processedCalls m))"
    "\<not> mt_warning m"
    by (simp_all only: simp_thms)
  have q: "mt_totalCalls m = 3" "length (mt_processedCalls m) = 3"
    using p(1,2) by simp_all
  have f: "length (filter (\<lambda>p. p_routingStatus p = ''routed'') (mt_processedCalls m)) = 1"
    "length (filter (\<lambda>p. p_routingStatus p = ''spam-likely'') (mt_processedCalls m)) = 1"
    "length (filter (\<lambda>p. p_routingStatus p = ''spam'') (mt_processedCalls m)) = 1"
    using p(3,4,5) e by simp_all
  from r e q f p(6) show ?thesis by (intro conjI exI [of _ m]) simp_all
qed

section \<open>Properties of the rule-based classifier\<close>

lemma classifyCall_rule1:
  "getCallDuration c < 5 \<Longrightarrow>
   classifyCall c =
     Inr (Classified \<lparr>lc_category = ''spam'', lc_bookingStatus = ''none'',
                       lc_transferReason = Literal ''short-abandoned''\<rparr>)"
  by (simp add: classifyCall_def getCallDuration_def Let_def)

lemma classifyCall_rule3:
  "\<not> getCallDuration c < 5 \<Longrightarrow> call_endedReason c \<noteq> Some ''assistant-forwarded-call'' \<Longrightarrow>
   structuredAppointmentBooked c \<or> hasConfirmationPhrase c \<or> vapiSuccess c \<Longrightarrow>
   classifyCall c =
     Inr (Classified \<lparr>lc_category = ''booking-success'', lc_bookingStatus = ''booking-success'',
                       lc_transferReason = Literal ''none''\<rparr>)"
  by (simp add: classifyCall_def getCallDuration_def Let_def)

lemma bookedHangupCall_facts:
  "call_endedReason bookedHangupCall = Some ''customer-ended-call''"
  "structuredAppointmentBooked bookedHangupCall"
  "getCallDuration bookedHangupCall = 180"
  by (simp_all add: bookedHangupCall_def blankCall_def structuredAppointmentBooked_def
      objectValues_def getCallDuration_def)

text \<open>
  C6, as the claim states it, fails: for the customer-ended call of 180 seconds with the
  structured output \<open>Appointment Booked\<close> true, the classifier's category is the string
  \<open>booking-success\<close>, not \<open>booking-completed\<close>.
\<close>

theorem booking_then_hangup_counterexample:
  "call_endedReason bookedHangupCall = Some ''customer-ended-call''
   \<and> structuredAppointmentBooked bookedHangupCall
   \<and> getCallDuration bookedHangupCall = 180
   \<and> (\<exists>r. classifyCall bookedHangupCall = Inr (Classified r)
          \<and> lc_category r = ''booking-success''
          \<and> lc_category r \<noteq> ''booking-completed'')"
  using classifyCall_rule3 [of bookedHangupCall] bookedHangupCall_facts by simp

text \<open>
  C6, amended. For every call record with ended reason \<open>customer-ended-call\<close>, the
  structured output \<open>Appointment Booked\<close> true and a duration of 180 seconds, the
  rule-based classifier returns the category \<open>booking-success\<close> (its label for a
  completed booking), with booking status \<open>booking-success\<close>, and not \<open>hangup\<close>: the
  booking rule fires before the customer-ended-call rule.
\<close>

theorem booking_then_hangup:
  assumes "call_endedReason c = Some ''customer-ended-call''"
    and "structuredAppointmentBooked c"
    and "getCallDuration c = 180"
  shows "classifyCall c =
           Inr (Classified \<lparr>lc_category = ''booking-success'',
                             lc_bookingStatus = ''booking-success'',
                             lc_transferReason = Literal ''none''\<rparr>)
         \<and> (\<forall>r. classifyCall c = Inr (Classified r) \<longrightarrow> lc_category r \<noteq> ''hangup'')"
proof -
  have "classifyCall c =
           Inr (Classified \<lparr>lc_category = ''booking-success'',
                             lc_bookingStatus = ''booking-success'',
                             lc_transferReason = Literal ''none''\<rparr>)"
    using assms by (intro classifyCall_rule3) simp_all
  then show ?thesis by simp
qed

theorem booking_then_hangup_witness:
  "classifyCall bookedHangupCall =
     Inr (Classified \<lparr>lc_category = ''booking-success'',
                       lc_bookingStatus = ''booking-success'',
                       lc_transferReason = Literal ''none''\<rparr>)"
  using booking_then_hangup [of bookedHangupCall] bookedHangupCall_facts by simp

lemma silentShortCall_facts:
  "getCallDuration silentShortCall = 3"
  "call_messages silentShortCall = Some []"
  "call_endedReason silentShortCall = Some ''customer-ended-call''"
  "call_toolCalls silentShortCall = None"
  "call_id silentShortCall = ''call-2''"
  by (simp_all add: silentShortCall_def blankCall_def getCallDuration_def)

text \<open>
  C7, as the claim states it, fails: for a call of three seconds the classifier's result
  carries \<open>short-abandoned\<close> in its \<open>transferReason\<close> field, which is therefore not
  null (the result has no \<open>spamType\<close> field at all).
\<close>

theorem short_call_counterexample:
  "getCallDuration silentShortCall < 5
   \<and> (\<exists>r. classifyCall silentShortCall = Inr (Classified r)
          \<and> lc_category r = ''spam''
          \<and> lc_transferReason r = Literal ''short-abandoned'')"
  using classifyCall_rule1 [of silentShortCall] silentShortCall_facts by simp

text \<open>
  C7, amended. For every call whose duration is below 5 seconds the rule-based classifier
  returns the category \<open>spam\<close> with booking status \<open>none\<close>, and it carries the label
  \<open>short-abandoned\<close> in the \<open>transferReason\<close> field of its result.
\<close>

theorem short_call_is_spam:
  assumes "getCallDuration c < 5"
  shows "classifyCall c =
           Inr (Classified \<lparr>lc_category = ''spam'', lc_bookingStatus = ''none'',
                             lc_transferReason = Literal ''short-abandoned''\<rparr>)"
  using assms by (rule classifyCall_rule1)

theorem short_call_is_spam_witness:
  "getCallDuration silentShortCall < 5
   \<and> classifyCall silentShortCall =
       Inr (Classified \<lparr>lc_category = ''spam'', lc_bookingStatus = ''none'',
                         lc_transferReason = Literal ''short-abandoned''\<rparr>)"
  using short_call_is_spam [of silentShortCall] silentShortCall_facts by simp

section \<open>The short silent call\<close>

lemma forwardedShortCall_facts:
  "getCallDuration forwardedShortCall = 3"
  "call_messages forwardedShortCall = Some []"
  "call_endedReason forwardedShortCall = Some ''assistant-forwarded-call''"
  by (simp_all add: forwardedShortCall_def blankCall_def getCallDuration_def)

lemma no_messages_no_speech:
  "call_messages c = None \<or> call_messages c = Some [] \<Longrightarrow> \<not> hasCustomerSpeech c"
  by (auto simp: hasCustomerSpeech_def)

lemma processCall_routingStatus:
  "processCall em c = Inr p \<Longrightarrow>
   p_transferAttempted p = truthy (getTransferIntent c)
   \<and> p_routingStatus p =
       routingStatusOf c (truthy (getTransferIntent c))
         (isSpamLikelyShortNoSpeech c (getCallDuration c)) (p_category p)"
  by (auto simp: processCall_def Let_def split: sum.splits prod.splits)

text \<open>
  C9, as the claim states it, fails: a call of three seconds with no messages whose ended
  reason is \<open>assistant-forwarded-call\<close> is classified \<open>spam\<close> by rule 1 of the
  classifier, and the resolver's first rule gives it the routing status \<open>routed\<close>, not
  \<open>spam-likely\<close>.
\<close>

theorem short_silent_call_counterexample:
  "getCallDuration forwardedShortCall = 3
   \<and> call_messages forwardedShortCall = Some []
   \<and> (\<exists>r. classifyCall forwardedShortCall = Inr (Classified r) \<and> lc_category r = ''spam'')
   \<and> (\<exists>p. processCall Map.empty forwardedShortCall = Inr p
          \<and> p_routingStatus p = ''routed''
          \<and> p_routingStatus p \<noteq> ''spam-likely'')"
proof -
  have "classifyCall forwardedShortCall =
     Inr (Classified \<lparr>lc_category = ''spam'', lc_bookingStatus = ''none'',
                       lc_transferReason = Literal ''short-abandoned''\<rparr>)"
    using forwardedShortCall_facts by (intro classifyCall_rule1) simp
  moreover obtain p where p: "processCall Map.empty forwardedShortCall = Inr p"
    by (auto simp: processCall_def readClassification_def Let_def)
  moreover from processCall_routingStatus [OF p] have "p_routingStatus p = ''routed''"
    using forwardedShortCall_facts by (simp add: routingStatusOf_def)
  ultimately show ?thesis using forwardedShortCall_facts by simp
qed

text \<open>
  C9, amended. For every call with a duration of 3 seconds and no messages, the classifier
  assigns the category \<open>spam\<close> (rule 1), and the resolver never assigns the routing
  status \<open>spam\<close>, whatever the stored category: unless one of its first two rules fires
  (the ended reason is \<open>assistant-forwarded-call\<close>, which gives \<open>routed\<close>, or a
  transfer was attempted and the ended reason is \<open>customer-ended-call\<close>, which gives
  \<open>hangup-before-route\<close>), it assigns \<open>spam-likely\<close>, because that check precedes the
  one on the category.
\<close>

theorem short_silent_call:
  assumes "getCallDuration c = 3"
    and "call_messages c = None \<or> call_messages c = Some []"
    and "processCall em c = Inr p"
  shows "classifyCall c =
           Inr (Classified \<lparr>lc_category = ''spam'', lc_bookingStatus = ''none'',
                             lc_transferReason = Literal ''short-abandoned''\<rparr>)
         \<and> p_routingStatus p \<noteq> ''spam''
         \<and> (call_endedReason c = Some ''assistant-forwarded-call''
            \<longrightarrow> p_routingStatus p = ''routed'')
         \<and> (p_transferAttempted p \<and> call_endedReason c = Some ''customer-ended-call''
            \<longrightarrow> p_routingStatus p = ''hangup-before-route'')
         \<and> (call_endedReason c \<noteq> Some ''assistant-forwarded-call''
              \<and> \<not> (p_transferAttempted p \<and> call_endedReason c = Some ''customer-ended-call'')
            \<longrightarrow> p_routingStatus p = ''spam-likely'')"
proof -
  have spam: "classifyCall c =
           Inr (Classified \<lparr>lc_category = ''spam'', lc_bookingStatus = ''none'',
                             lc_transferReason = Literal ''short-abandoned''\<rparr>)"
    using assms(1) by (intro classifyCall_rule1) simp
  have likely: "isSpamLikelyShortNoSpeech c (getCallDuration c)"
    using assms(1) no_messages_no_speech [OF assms(2)]
    by (simp add: isSpamLikelyShortNoSpeech_def)
  from processCall_routingStatus [OF assms(3)] likely
  have "p_routingStatus p \<noteq> ''spam''"
    and "call_endedReason c = Some ''assistant-forwarded-call''
            \<longrightarrow> p_routingStatus p = ''routed''"
    and "p_transferAttempted p \<and> call_endedReason c = Some ''customer-ended-call''
            \<longrightarrow> p_routingStatus p = ''hangup-before-route''"
    and "call_endedReason c \<noteq> Some ''assistant-forwarded-call''
              \<and> \<not> (p_transferAttempted p \<and> call_endedReason c = Some ''customer-ended-call'')
            \<longrightarrow> p_routingStatus p = ''spam-likely''"
    by (auto simp: routingStatusOf_def)
  with spam show ?thesis by simp
qed

theorem short_silent_call_witness:
  "getCallDuration silentShortCall = 3
   \<and> call_messages silentShortCall = Some []
   \<and> (\<exists>p. processCall [''call-2'' \<mapsto> spamEnrichment ''call-2''] silentShortCall = Inr p
          \<and> p_category p = ''spam''
          \<and> p_routingStatus p = ''spam-likely'')
   \<and> classifyCall silentShortCall =
       Inr (Classified \<lparr>lc_category = ''spam'', lc_bookingStatus = ''none'',
                         lc_transferReason = Literal ''short-abandoned''\<rparr>)"
proof -
  let ?em = "[''call-2'' \<mapsto> spamEnrichment ''call-2'']"
  obtain p where p: "processCall ?em silentShortCall = Inr p" and cat: "p_category p = ''spam''"
    by (auto simp: processCall_def readClassification_def Let_def silentShortCall_facts
        spamEnrichment_def jor_def toLowerCase_def toLowerChar_def)
  have att: "\<not> p_transferAttempted p"
    using processCall_routingStatus [OF p]
    by (simp add: getTransferIntent_def silentShortCall_facts)
  from short_silent_call [of silentShortCall ?em p] p att silentShortCall_facts
  have "classifyCall silentShortCall =
       Inr (Classified \<lparr>lc_category = ''spam'', lc_bookingStatus = ''none'',
                         lc_transferReason = Literal ''short-abandoned''\<rparr>)
     \<and> p_routingStatus p = ''spam-likely''"
    by simp
  with p cat silentShortCall_facts show ?thesis by auto
qed

section \<open>Properties of the model-assisted classifier\<close>

lemma mapM_nth: "mapM f xs = Inr ys \<Longrightarrow> i < length xs \<Longrightarrow> f (xs ! i) = Inr (ys ! i)"
proof (induction xs arbitrary: ys i)
  case Nil
  then show ?case by simp
next
  case (Cons x xs)
  then show ?case by (cases i) (auto split: sum.splits)
qed

lemma extractAll_length: "extractAll idx calls = Inr fs \<Longrightarrow> length fs = length calls"
  by (induction calls arbitrary: idx fs) (auto split: sum.splits)

lemma extractAll_nth:
  "extractAll idx calls = Inr fs \<Longrightarrow> i < length calls \<Longrightarrow>
   extractFeatures (idx + i) (calls ! i) = Inr (fs ! i)"
proof (induction calls arbitrary: idx fs i)
  case Nil
  then show ?case by simp
next
  case (Cons c cs)
  from Cons.prems(1) obtain f fs' where
    f: "extractFeatures idx c = Inr f" and fs': "extractAll (Suc idx) cs = Inr fs'"
    and fs: "fs = f # fs'"
    by (auto split: sum.splits)
  show ?case
  proof (cases i)
    case 0
    then show ?thesis using f fs by simp
  next
    case (Suc j)
    then have "j < length cs" using Cons.prems(2) by simp
    from Cons.IH [OF fs' this] show ?thesis using Suc fs by simp
  qed
qed

lemma override1_booked:
  assumes "f_appointmentBooked f" and "override1 f cl0 = Inr cl1"
  shows "getProp cl1 ''category'' = Inr (JStr ''booking-completed'')
     \<and> (getProp cl0 ''category'' \<noteq> Inr (JStr ''booking-completed'') \<longrightarrow>
          cl1 = classificationObject (JStr ''booking-completed'') JNull JNull JNull)"
  using assms
  by (auto simp: override1_def classificationObject_def split: sum.splits if_splits)

lemma override2_known:
  assumes "getProp cl ''category'' = Inr cat" and "cat \<noteq> JStr ''unknown''"
  shows "override2 f cl = Inr cl"
  using assms by (simp add: override2_def)

lemma classifyOne_booked:
  assumes "classifyOne now result (c, f) = Inr e" and "f_appointmentBooked f"
  shows "\<exists>k. e_classification e = Some k \<and> category k = JStr ''booking-completed''
       \<and> bookingStatus k = ''booking-attempt''
       \<and> (\<forall>cl. modelClassification result (call_id c) = Inr cl
              \<and> getProp cl ''category'' \<noteq> Inr (JStr ''booking-completed'')
            \<longrightarrow> hangupType k = JNull \<and> transferReason k = JNull \<and> spamType k = JNull)"
proof -
  from assms(1) obtain cl0 cl1 cl2 k where
    m: "modelClassification result (call_id c) = Inr cl0" and
    o1: "override1 f cl0 = Inr cl1" and
    o2: "override2 f cl1 = Inr cl2" and
    fin: "finalClassification cl2 = Inr k" and
    e: "e_classification e = Some k"
    by (auto simp: classifyOne_def split: sum.splits)
  from override1_booked [OF assms(2) o1] have
    c1: "getProp cl1 ''category'' = Inr (JStr ''booking-completed'')" and
    ob: "getProp cl0 ''category'' \<noteq> Inr (JStr ''booking-completed'') \<Longrightarrow>
          cl1 = classificationObject (JStr ''booking-completed'') JNull JNull JNull"
    by simp_all
  have "override2 f cl1 = Inr cl1" using c1 by (rule override2_known) simp
  with o2 have cl2: "cl2 = cl1" by simp
  from fin cl2 c1 have cat: "category k = JStr ''booking-completed''"
      and st: "bookingStatus k = ''booking-attempt''"
    by (auto simp: finalClassification_def bookingStatusOf_def split: sum.splits prod.splits)
  have nulls: "hangupType k = JNull \<and> transferReason k = JNull \<and> spamType k = JNull"
    if "getProp cl0 ''category'' \<noteq> Inr (JStr ''booking-completed'')"
    using ob [OF that] fin cl2
    by (auto simp: finalClassification_def bookingStatusOf_def classificationObject_def jor_def
        split: sum.splits prod.splits)
  show ?thesis using e cat st nulls m by auto
qed

lemma math_round_int: "math_round (of_int n) = n"
proof -
  have "\<lfloor>(of_int n + 1 / 2 :: rat)\<rfloor> = n + \<lfloor>(1 / 2 :: rat)\<rfloor>"
    by (metis add.commute floor_add_int)
  also have "\<lfloor>(1 / 2 :: rat)\<rfloor> = 0" by (rule floor_eq_iff[THEN iffD2]) simp
  finally show ?thesis by (simp add: math_round_def)
qed

lemma math_round_numeral: "math_round (numeral k) = numeral k"
  using math_round_int [of "numeral k"] by simp

lemma math_round_zero: "math_round 0 = 0"
  using math_round_int [of 0] by simp

lemmas batch_defs =
  classifyCallsBatch_def extractFeatures_def appointmentBookedOf_def structuredBookedFlag_def
  evaluationPayload_def transferDestinationHint_def blankCall_def tryBody_def classifyOne_def
  modelClassification_def hasCallId_def override1_def override2_def finalClassification_def
  bookingStatusOf_def jor_def classificationObject_def math_round_numeral math_round_zero
  fallbackEnrichment_def

lemma flaggedCall_features:
  "extractAll 0 [flaggedCall] =
     Inr [\<lparr>f_index = 0, f_callId = ''call-5'', f_duration = 180,
            f_endedReason = ''customer-ended-call'', f_transferDestinationHint = JNull,
            f_appointmentBooked = True, f_transcript = [],
            f_summary = ''No summary available''\<rparr>]"
  by (simp add: batch_defs flaggedCall_def toDouble_180)

text \<open>
  C2, as the claim states it, fails: for a call whose booking flag is true, a reply of the
  model with the category \<open>booking-completed\<close> and the transfer reason \<open>sales\<close> is kept
  as it is, so the final transfer reason is \<open>sales\<close>, not null.
\<close>

theorem booked_flag_counterexample:
  "\<exists>f e k. extractAll 0 [flaggedCall] = Inr [f] \<and> f_appointmentBooked f
     \<and> classifyCallsBatch exampleNow [flaggedCall] (ResponseText (Some replyBookedWithReason))
         = Inr [e]
     \<and> e_classification e = Some k \<and> category k = JStr ''booking-completed''
     \<and> transferReason k = JStr ''sales''"
  by (simp add: batch_defs flaggedCall_def replyBookedWithReason_def)

text \<open>
  C2, amended. When the body of the \<open>try\<close> completes for a batch (the reply parses and
  the mapping throws no exception), \<open>classifyCallsBatch\<close> returns its enrichments, and
  for every call of the batch whose booking flag is true the final category is
  \<open>booking-completed\<close> with booking status \<open>booking-attempt\<close>, whatever category the
  model returned; the three sub-type fields are null whenever the model's category for the
  call was not \<open>booking-completed\<close> (a reply that already says \<open>booking-completed\<close>
  keeps its own sub-type fields).
\<close>

theorem booked_flag_override:
  assumes "extractAll 0 calls = Inr callSummaries"
    and "tryBody now response calls callSummaries = Inr enrichments"
    and "i < length calls"
    and "f_appointmentBooked (callSummaries ! i)"
  shows "classifyCallsBatch now calls response = Inr enrichments
     \<and> length enrichments = length calls
     \<and> (\<exists>k. e_classification (enrichments ! i) = Some k
            \<and> category k = JStr ''booking-completed''
            \<and> bookingStatus k = ''booking-attempt''
            \<and> (\<forall>result cl. response = ResponseText (Some result)
                   \<and> modelClassification result (call_id (calls ! i)) = Inr cl
                   \<and> getProp cl ''category'' \<noteq> Inr (JStr ''booking-completed'')
                 \<longrightarrow> hangupType k = JNull \<and> transferReason k = JNull \<and> spamType k = JNull))"
proof -
  from assms(2) obtain result where
    r: "response = ResponseText (Some result)" and
    m: "mapM (classifyOne now result) (zip calls callSummaries) = Inr enrichments"
    by (auto simp: tryBody_def split: llm_response.splits option.splits)
  have len: "length callSummaries = length calls"
    using assms(1) by (rule extractAll_length)
  from mapM_length [OF m] len have n: "length enrichments = length calls" by simp
  from mapM_nth [OF m, of i] assms(3) len
  have "classifyOne now result (calls ! i, callSummaries ! i) = Inr (enrichments ! i)"
    by simp
  from classifyOne_booked [OF this assms(4)] obtain k where
    k: "e_classification (enrichments ! i) = Some k" "category k = JStr ''booking-completed''"
       "bookingStatus k = ''booking-attempt''"
       "\<forall>cl. modelClassification result (call_id (calls ! i)) = Inr cl
              \<and> getProp cl ''category'' \<noteq> Inr (JStr ''booking-completed'')
            \<longrightarrow> hangupType k = JNull \<and> transferReason k = JNull \<and> spamType k = JNull"
    by blast
  have "classifyCallsBatch now calls response = Inr enrichments"
    using assms(1,2) by (simp add: classifyCallsBatch_def)
  then show ?thesis using n k r by auto
qed

theorem booked_flag_override_witness:
  "\<exists>e k. classifyCallsBatch exampleNow [flaggedCall] (ResponseText (Some replySpam)) = Inr [e]
     \<and> e_classification e = Some k
     \<and> category k = JStr ''booking-completed''
     \<and> bookingStatus k = ''booking-attempt''
     \<and> hangupType k = JNull \<and> transferReason k = JNull \<and> spamType k = JNull"
proof -
  let ?f = "\<lparr>f_index = 0, f_callId = ''call-5'', f_duration = 180,
            f_endedReason = ''customer-ended-call'', f_transferDestinationHint = JNull,
            f_appointmentBooked = True, f_transcript = [],
            f_summary = ''No summary available''\<rparr>"
  let ?cl = "JObj [(''callId'', JStr ''call-5''), (''category'', JStr ''spam''),
                  (''transferReason'', JNull), (''spamType'', JStr ''wrong-number''),
                  (''hangupType'', JNull)]"
  obtain e where t: "tryBody exampleNow (ResponseText (Some replySpam)) [flaggedCall] [?f] = Inr [e]"
    by (simp add: batch_defs flaggedCall_def replySpam_def)
  have m: "modelClassification replySpam (call_id flaggedCall) = Inr ?cl"
    by (simp add: batch_defs flaggedCall_def replySpam_def)
  have c: "getProp ?cl ''category'' \<noteq> Inr (JStr ''booking-completed'')" by simp
  from booked_flag_override [OF flaggedCall_features t, of 0] m c show ?thesis by auto
qed

text \<open>
  The fallback rules of override 2 on the path where the request succeeds: a call that the
  reply does not name, or names with the category \<open>unknown\<close>, and whose booking flag is
  false, is classified from its ended reason and its duration.
\<close>

lemma override2_unknown:
  assumes "modelClassification result (call_id c) = Inr cl"
    and "getProp cl ''category'' = Inr (JStr ''unknown'')"
    and "getProp cl ''hangupType'' = Inr h" and "\<not> truthy h"
    and "getProp cl ''transferReason'' = Inr t" and "\<not> truthy t"
    and "getProp cl ''spamType'' = Inr s" and "\<not> truthy s"
    and "\<not> f_appointmentBooked f"
  shows "\<exists>e. classifyOne now result (c, f) = Inr e
           \<and> e_classification e = Some (fallbackTable (f_endedReason f) (f_duration f))"
  using assms
  by (simp add: classifyOne_def override1_def override2_def finalClassification_def
      bookingStatusOf_def classificationObject_def jor_def fallbackTable_def Let_def)

lemma request_failure_all_unknown:
  assumes "extractAll 0 calls = Inr callSummaries"
  shows "classifyCallsBatch now calls RequestFailed = Inr (map (fallbackEnrichment now) calls)"
  using assms by (simp add: classifyCallsBatch_def tryBody_def)

text \<open>
  C4. The code at a batch of one forwarded call: when the request fails, the call is
  stored with the category \<open>unknown\<close> and no transfer reason, and override 2 is not
  applied; when the request succeeds and the reply does not name the call, override 2
  makes it \<open>transferred\<close> with the reason \<open>other\<close>.
\<close>

theorem request_failure_skips_fallback:
  "classifyCallsBatch exampleNow [forwardedCall] RequestFailed
     = Inr [fallbackEnrichment exampleNow forwardedCall]
   \<and> e_classification (fallbackEnrichment exampleNow forwardedCall)
       = Some \<lparr>category = JStr ''unknown'', hangupType = JNull, transferReason = JNull,
               spamType = JNull, bookingStatus = ''none''\<rparr>
   \<and> (\<exists>e. classifyCallsBatch exampleNow [forwardedCall] (ResponseText (Some emptyReply))
            = Inr [e]
          \<and> e_classification e
              = Some \<lparr>category = JStr ''transferred'', hangupType = JNull,
                      transferReason = JStr ''other'', spamType = JNull,
                      bookingStatus = ''none''\<rparr>)"
  by (simp add: batch_defs forwardedCall_def emptyReply_def)

section \<open>Properties of the booking flag\<close>

lemma outcomeIsBooking_empty: "\<not> outcomeIsBooking []"
  by (simp add: outcomeIsBooking_def)

lemma appointmentBookedOf_eval:
  assumes "appointmentBookedOf c = Inr b" and "\<not> structuredBookedFlag c"
  shows "b \<longleftrightarrow>
           (\<exists>evalData outcome. evaluationPayload c = Some evalData
              \<and> getProp evalData ''call_success'' = Inr (JStr ''yes'')
              \<and> getProp evalData ''final_outcome'' = Inr (JStr outcome)
              \<and> outcomeIsBooking (toLowerCase outcome))"
proof (cases "evaluationPayload c")
  case None
  then show ?thesis using assms by (simp add: appointmentBookedOf_def)
next
  case (Some evalData)
  from assms(1) Some obtain outcome lowered success where
    o: "getProp evalData ''final_outcome'' = Inr outcome" and
    l: "js_toLowerCase (jor outcome (JStr [])) = Inr lowered" and
    s: "getProp evalData ''call_success'' = Inr success" and
    b: "b = (if success = JStr ''yes'' \<and> outcomeIsBooking lowered then True
             else structuredBookedFlag c)"
    by (auto simp: appointmentBookedOf_def Let_def split: sum.splits if_splits)
  show ?thesis
  proof (cases "truthy outcome")
    case True
    with l obtain t where t: "outcome = JStr t" and lw: "lowered = toLowerCase t"
      by (cases outcome) (auto simp: jor_def)
    show ?thesis using Some o s b t lw assms(2) by auto
  next
    case False
    with l have lw: "lowered = []" by (auto simp: jor_def toLowerCase_def)
    have "\<not> outcomeIsBooking (toLowerCase t)" if "outcome = JStr t" for t
      using that False by (simp add: toLowerCase_def outcomeIsBooking_empty)
    then show ?thesis using Some o s b lw assms(2) outcomeIsBooking_empty by auto
  qed
qed

lemma override2_category:
  assumes "override2 f cl = Inr cl2"
    and "getProp cl2 ''category'' = Inr (JStr ''booking-completed'')"
  shows "cl2 = cl"
  using assms
  by (auto simp: override2_def Let_def classificationObject_def split: sum.splits if_splits)

lemma finalClassification_category:
  "finalClassification cl = Inr k \<Longrightarrow> getProp cl ''category'' = Inr (category k)"
  by (auto simp: finalClassification_def split: sum.splits prod.splits)

lemma classifyOne_not_booked:
  assumes "classifyOne now result (c, f) = Inr e" and "\<not> f_appointmentBooked f"
    and "e_classification e = Some k" and "category k = JStr ''booking-completed''"
  shows "\<exists>cl. modelClassification result (call_id c) = Inr cl
           \<and> getProp cl ''category'' = Inr (JStr ''booking-completed'')"
proof -
  from assms(1,3) obtain cl0 cl1 cl2 where
    m: "modelClassification result (call_id c) = Inr cl0" and
    o1: "override1 f cl0 = Inr cl1" and
    o2: "override2 f cl1 = Inr cl2" and
    fin: "finalClassification cl2 = Inr k"
    by (auto simp: classifyOne_def split: sum.splits)
  from o1 assms(2) have "cl1 = cl0"
    by (auto simp: override1_def split: sum.splits)
  moreover from finalClassification_category [OF fin] assms(4)
  have c2: "getProp cl2 ''category'' = Inr (JStr ''booking-completed'')" by simp
  moreover from override2_category [OF o2 c2] have "cl2 = cl1" .
  ultimately show ?thesis using m by auto
qed

lemma evaluatedTransferCall_facts:
  "evaluationPayload evaluatedTransferCall =
     Some (JObj [(''call_success'', JStr ''yes''),
                 (''final_outcome'',
                  JStr ''Caller was transferred to scheduling for an appointment'')])"
  "\<not> structuredBookedFlag evaluatedTransferCall"
  "\<not> structuredAppointmentBooked evaluatedTransferCall"
  "\<not> hasConfirmationPhrase evaluatedTransferCall"
  "call_endedReason evaluatedTransferCall = Some ''customer-ended-call''"
  "getCallDuration evaluatedTransferCall = 60"
  by (simp_all add: evaluatedTransferCall_def blankCall_def evaluationPayload_def
      structuredBookedFlag_def structuredAppointmentBooked_def hasConfirmationPhrase_def
      getCallDuration_def toLowerCase_def toDouble_60)

lemma evaluatedTransferCall_vapiSuccess: "vapiSuccess evaluatedTransferCall"
  by (simp add: vapiSuccess_def evaluatedTransferCall_def blankCall_def evalIndicatesSuccess_def)

text \<open>
  C8, as the claim states it, fails on its last part: a call whose success evaluation
  reports success with an outcome that says the caller was transferred, and which has no
  structured booking output and no confirmation phrase, is classified \<open>booking-success\<close>
  by the rule-based classifier, whose own test of the evaluation accepts \<open>call_success\<close>
  being \<open>yes\<close> alone.
\<close>

theorem transfer_success_counterexample:
  "evaluationPayload evaluatedTransferCall =
     Some (JObj [(''call_success'', JStr ''yes''),
                 (''final_outcome'',
                  JStr ''Caller was transferred to scheduling for an appointment'')])
   \<and> \<not> structuredAppointmentBooked evaluatedTransferCall
   \<and> \<not> hasConfirmationPhrase evaluatedTransferCall
   \<and> (\<exists>r. classifyCall evaluatedTransferCall = Inr (Classified r)
          \<and> lc_category r = ''booking-success'')"
  using classifyCall_rule3 [of evaluatedTransferCall] evaluatedTransferCall_facts
    evaluatedTransferCall_vapiSuccess
  by simp

text \<open>
  C8, amended. In the model-assisted path, when the structured output does not set the
  booking flag, the extracted flag is true exactly when there is a success evaluation whose
  \<open>call_success\<close> is \<open>yes\<close> and whose \<open>final_outcome\<close> is a text that, in lower
  case, contains \<open>appointment\<close> or \<open>consultation\<close>, contains \<open>scheduled\<close>,
  \<open>confirmed\<close> or \<open>booked\<close>, and does not contain \<open>transferred\<close>. So a successful
  transfer alone never sets the flag, and with the flag false the overrides never force a
  booking: the final category is \<open>booking-completed\<close> only when the model returned it.
  (The rule-based classifier does not use this test.)
\<close>

theorem booking_flag_from_evaluation:
  assumes "extractFeatures idx c = Inr f" and "\<not> structuredBookedFlag c"
  shows "(f_appointmentBooked f \<longleftrightarrow>
           (\<exists>evalData outcome. evaluationPayload c = Some evalData
              \<and> getProp evalData ''call_success'' = Inr (JStr ''yes'')
              \<and> getProp evalData ''final_outcome'' = Inr (JStr outcome)
              \<and> (str_includes (toLowerCase outcome) ''appointment''
                   \<or> str_includes (toLowerCase outcome) ''consultation'')
              \<and> (str_includes (toLowerCase outcome) ''scheduled''
                   \<or> str_includes (toLowerCase outcome) ''confirmed''
                   \<or> str_includes (toLowerCase outcome) ''booked'')
              \<and> \<not> str_includes (toLowerCase outcome) ''transferred''))
     \<and> (\<not> f_appointmentBooked f \<longrightarrow>
          (\<forall>now result e k. classifyOne now result (c, f) = Inr e
               \<and> e_classification e = Some k
               \<and> category k = JStr ''booking-completed''
             \<longrightarrow> (\<exists>cl. modelClassification result (call_id c) = Inr cl
                     \<and> getProp cl ''category'' = Inr (JStr ''booking-completed''))))"
proof -
  from assms(1) have b: "appointmentBookedOf c = Inr (f_appointmentBooked f)"
    by (auto simp: extractFeatures_def Let_def split: sum.splits)
  have one: "f_appointmentBooked f \<longleftrightarrow>
           (\<exists>evalData outcome. evaluationPayload c = Some evalData
              \<and> getProp evalData ''call_success'' = Inr (JStr ''yes'')
              \<and> getProp evalData ''final_outcome'' = Inr (JStr outcome)
              \<and> (str_includes (toLowerCase outcome) ''appointment''
                   \<or> str_includes (toLowerCase outcome) ''consultation'')
              \<and> (str_includes (toLowerCase outcome) ''scheduled''
                   \<or> str_includes (toLowerCase outcome) ''confirmed''
                   \<or> str_includes (toLowerCase outcome) ''booked'')
              \<and> \<not> str_includes (toLowerCase outcome) ''transferred'')"
    using appointmentBookedOf_eval [OF b assms(2)] unfolding outcomeIsBooking_def .
  have two: "\<not> f_appointmentBooked f \<longrightarrow>
          (\<forall>now result e k. classifyOne now result (c, f) = Inr e
               \<and> e_classification e = Some k
               \<and> category k = JStr ''booking-completed''
             \<longrightarrow> (\<exists>cl. modelClassification result (call_id c) = Inr cl
                     \<and> getProp cl ''category'' = Inr (JStr ''booking-completed'')))"
    using classifyOne_not_booked by blast
  from one two show ?thesis by (rule conjI)
qed

theorem booking_flag_from_evaluation_witness:
  "(\<exists>f. extractFeatures 0 evaluatedBookingCall = Inr f \<and> f_appointmentBooked f)
   \<and> \<not> structuredBookedFlag evaluatedBookingCall
   \<and> (\<exists>f. extractFeatures 1 evaluatedTransferCall = Inr f \<and> \<not> f_appointmentBooked f)
   \<and> \<not> structuredBookedFlag evaluatedTransferCall
   \<and> str_includes (toLowerCase ''Caller was transferred to scheduling for an appointment'')
        ''transferred''"
proof -
  have "extractFeatures 0 evaluatedBookingCall =
     Inr \<lparr>f_index = 0, f_callId = ''call-7'', f_duration = 95,
          f_endedReason = ''assistant-ended-call'', f_transferDestinationHint = JNull,
          f_appointmentBooked = True, f_transcript = [],
          f_summary = ''No summary available''\<rparr>"
    by code_simp
  then obtain f where f: "extractFeatures 0 evaluatedBookingCall = Inr f" by blast
  have sb: "\<not> structuredBookedFlag evaluatedBookingCall"
    by (simp add: structuredBookedFlag_def evaluatedBookingCall_def blankCall_def)
  have pb: "evaluationPayload evaluatedBookingCall =
     Some (JObj [(''call_success'', JStr ''yes''),
                 (''final_outcome'', JStr ''Appointment scheduled for Tuesday'')])"
    by (simp add: evaluationPayload_def evaluatedBookingCall_def blankCall_def)
  have lb: "toLowerCase ''Appointment scheduled for Tuesday'' = ''appointment scheduled for tuesday''"
    by (simp add: toLowerCase_def toLowerChar_def)
  have "f_appointmentBooked f"
    using booking_flag_from_evaluation [OF f sb] pb lb by simp
  with f have one: "\<exists>f. extractFeatures 0 evaluatedBookingCall = Inr f \<and> f_appointmentBooked f"
    by blast
  have "extractFeatures 1 evaluatedTransferCall =
     Inr \<lparr>f_index = 1, f_callId = ''call-8'', f_duration = 60,
          f_endedReason = ''customer-ended-call'', f_transferDestinationHint = JNull,
          f_appointmentBooked = False, f_transcript = [],
          f_summary = ''No summary available''\<rparr>"
    by code_simp
  then obtain g where g: "extractFeatures 1 evaluatedTransferCall = Inr g" by blast
  have lt: "toLowerCase ''Caller was transferred to scheduling for an appointment''
              = ''caller was transferred to scheduling for an appointment''"
    by (simp add: toLowerCase_def toLowerChar_def)
  have "\<not> f_appointmentBooked g"
    using booking_flag_from_evaluation [OF g evaluatedTransferCall_facts(2)]
      evaluatedTransferCall_facts(1) lt by simp
  with g have two: "\<exists>f. extractFeatures 1 evaluatedTransferCall = Inr f \<and> \<not> f_appointmentBooked f"
    by blast
  from one sb two evaluatedTransferCall_facts(2) lt show ?thesis by simp
qed

section \<open>Properties of the classification store\<close>

lemma lastFiled_Nil [simp]: "lastFiled fmt d c [] = None"
  by (simp add: lastFiled_def)

lemma find_append:
  "List.find P (xs @ ys) = (case List.find P xs of None \<Rightarrow> List.find P ys | Some x \<Rightarrow> Some x)"
  by (induction xs) auto

lemma lastFiled_Cons:
  "lastFiled fmt d c (e # es) =
     (case lastFiled fmt d c es of
        Some x \<Rightarrow> Some x
      | None \<Rightarrow> if filedUnder fmt d c e then Some e else None)"
  by (simp add: lastFiled_def find_append split: option.splits)

lemma lookupGrouped_update:
  "lookupGrouped (AList.update dk (AList.update cid' v (case map_of g dk of None \<Rightarrow> [] | Some d \<Rightarrow> d)) g) d c =
     (if d = dk \<and> c = cid' then Some v else lookupGrouped g d c)"
  by (auto simp: lookupGrouped_def update_conv' split: option.splits)

lemma groupByDate_lookup:
  "groupByDate fmt now g es = Inr g' \<Longrightarrow>
   lookupGrouped g' d c =
     (case lastFiled fmt d c es of
        Some e \<Rightarrow> Some (storedRecord now e)
      | None \<Rightarrow> lookupGrouped g d c)"
proof (induction es arbitrary: g)
  case Nil
  then show ?case by simp
next
  case (Cons e es)
  show ?case
  proof (cases "hasCreatedAt e")
    case False
    then have skip: "groupByDate fmt now g (e # es) = groupByDate fmt now g es"
      by (auto simp: hasCreatedAt_def split: option.splits)
    from False have "\<not> filedUnder fmt d c e"
      by (auto simp: hasCreatedAt_def filedUnder_def split: option.splits)
    with Cons skip show ?thesis by (simp add: lastFiled_Cons split: option.splits)
  next
    case True
    then obtain t where t: "e_createdAt e = Some t" "t \<noteq> []"
      by (auto simp: hasCreatedAt_def split: option.splits)
    with Cons.prems obtain dk where dk: "fmt t = Some dk"
      by (auto split: option.splits)
    let ?g = "AList.update dk (AList.update (e_callId e) (storedRecord now e)
                (case map_of g dk of None \<Rightarrow> [] | Some d \<Rightarrow> d)) g"
    from Cons.prems t dk have "groupByDate fmt now ?g es = Inr g'"
      by (simp add: Let_def)
    from Cons.IH [OF this] have
      "lookupGrouped g' d c =
        (case lastFiled fmt d c es of Some e \<Rightarrow> Some (storedRecord now e)
         | None \<Rightarrow> lookupGrouped ?g d c)" .
    moreover have "filedUnder fmt d c e \<longleftrightarrow> d = dk \<and> c = e_callId e"
      using t dk by (auto simp: filedUnder_def)
    ultimately show ?thesis
      by (simp add: lastFiled_Cons lookupGrouped_update split: option.splits)
  qed
qed

lemma groupByDate_distinct:
  "groupByDate fmt now g es = Inr g' \<Longrightarrow> distinct (map fst g) \<Longrightarrow> distinct (map fst g')"
  by (induction es arbitrary: g) (auto simp: distinct_update Let_def split: option.splits if_splits)

lemma writeFiles_lookup:
  "distinct (map fst g) \<Longrightarrow> writeFiles s n g = (s', n') \<Longrightarrow>
   lookupStore s' d c =
     (case lookupGrouped g d c of Some v \<Rightarrow> Some v | None \<Rightarrow> lookupStore s d c)"
proof (induction g arbitrary: s n)
  case Nil
  then show ?case by (simp add: lookupGrouped_def)
next
  case (Cons a g)
  obtain dk data where a: "a = (dk, data)" by (cases a)
  let ?s = "s(dk \<mapsto> (case s dk of None \<Rightarrow> Map.empty | Some f \<Rightarrow> f) ++ map_of data)"
  from Cons.prems a have w: "writeFiles ?s (n + length data) g = (s', n')"
    by (simp add: Let_def)
  from Cons.prems a have dist: "distinct (map fst g)" and notin: "dk \<notin> fst ` set g" by auto
  from Cons.IH [OF dist w] have
    ih: "lookupStore s' d c =
      (case lookupGrouped g d c of Some v \<Rightarrow> Some v | None \<Rightarrow> lookupStore ?s d c)" .
  from notin have none: "map_of g dk = None" by (simp add: map_of_eq_None_iff)
  show ?case
  proof (cases "d = dk")
    case True
    with none have "lookupGrouped g d c = None" by (simp add: lookupGrouped_def)
    with ih True a show ?thesis
      by (auto simp: lookupGrouped_def lookupStore_def map_add_def split: option.splits)
  next
    case False
    with ih a show ?thesis
      by (auto simp: lookupGrouped_def lookupStore_def split: option.splits)
  qed
qed

lemma saveEnrichments_lookup:
  assumes "saveEnrichments fmt now es s = Inr (s', n)"
  shows "lookupStore s' d c =
     (case lastFiled fmt d c es of
        Some e \<Rightarrow> Some (storedRecord now e)
      | None \<Rightarrow> lookupStore s d c)"
proof -
  from assms obtain g where g: "groupByDate fmt now [] es = Inr g"
    and w: "writeFiles s 0 g = (s', n)"
    by (auto simp: saveEnrichments_def split: sum.splits)
  have "distinct (map fst g)" using groupByDate_distinct [OF g] by simp
  from writeFiles_lookup [OF this w] groupByDate_lookup [OF g]
  show ?thesis by (auto simp: lookupGrouped_def split: option.splits)
qed

lemma groupByDate_filter:
  "groupByDate fmt now g es = groupByDate fmt now g (filter hasCreatedAt es)"
  by (induction es arbitrary: g) (auto simp: hasCreatedAt_def Let_def split: option.splits)

lemma saveEnrichments_filter:
  "saveEnrichments fmt now es s = saveEnrichments fmt now (filter hasCreatedAt es) s"
  unfolding saveEnrichments_def using groupByDate_filter [of fmt now "[]" es] by simp

lemma totalEntries_update:
  "length day' \<le> Suc (length (case map_of g dk of None \<Rightarrow> [] | Some d \<Rightarrow> d)) \<Longrightarrow>
   totalEntries (AList.update dk day' g) \<le> Suc (totalEntries g)"
  by (induction g) (auto simp: totalEntries_def)

lemma length_update_le: "length (AList.update k v al) \<le> Suc (length al)"
  by (induction al) auto

lemma groupByDate_total:
  "groupByDate fmt now g es = Inr g' \<Longrightarrow>
   totalEntries g' \<le> totalEntries g + length (filter hasCreatedAt es)"
proof (induction es arbitrary: g)
  case Nil
  then show ?case by simp
next
  case (Cons e es)
  show ?case
  proof (cases "hasCreatedAt e")
    case False
    then have "groupByDate fmt now g (e # es) = groupByDate fmt now g es"
      by (auto simp: hasCreatedAt_def split: option.splits)
    with Cons False show ?thesis by simp
  next
    case True
    then obtain t where t: "e_createdAt e = Some t" "t \<noteq> []"
      by (auto simp: hasCreatedAt_def split: option.splits)
    with Cons.prems obtain dk where dk: "fmt t = Some dk"
      by (auto split: option.splits)
    let ?day = "case map_of g dk of None \<Rightarrow> [] | Some d \<Rightarrow> d"
    let ?g = "AList.update dk (AList.update (e_callId e) (storedRecord now e) ?day) g"
    from Cons.prems t dk have "groupByDate fmt now ?g es = Inr g'"
      by (simp add: Let_def)
    from Cons.IH [OF this] have "totalEntries g' \<le> totalEntries ?g + length (filter hasCreatedAt es)" .
    moreover have "totalEntries ?g \<le> Suc (totalEntries g)"
      by (rule totalEntries_update) (rule length_update_le)
    ultimately show ?thesis using True by simp
  qed
qed

lemma writeFiles_count: "writeFiles s n g = (s', n') \<Longrightarrow> n' = n + totalEntries g"
proof (induction g arbitrary: s n)
  case Nil
  then show ?case by (simp add: totalEntries_def)
next
  case (Cons a g)
  obtain dk data where a: "a = (dk, data)" by (cases a)
  let ?s = "s(dk \<mapsto> (case s dk of None \<Rightarrow> Map.empty | Some f \<Rightarrow> f) ++ map_of data)"
  from Cons.prems a have "writeFiles ?s (n + length data) g = (s', n')"
    by (simp add: Let_def)
  from Cons.IH [OF this] a show ?case by (simp add: totalEntries_def)
qed

lemma saveEnrichments_count:
  assumes "saveEnrichments fmt now es s = Inr (s', n)"
  shows "n \<le> length (filter hasCreatedAt es)"
proof -
  from assms obtain g where g: "groupByDate fmt now [] es = Inr g"
    and w: "writeFiles s 0 g = (s', n)"
    by (auto simp: saveEnrichments_def split: sum.splits)
  from writeFiles_count [OF w] groupByDate_total [OF g] show ?thesis
    by (simp add: totalEntries_def)
qed

lemma lastFiled_None:
  "(\<forall>e \<in> set es. \<not> filedUnder fmt d c e) \<Longrightarrow> lastFiled fmt d c es = None"
  by (auto simp: lastFiled_def find_None_iff)

lemma find_SomeD: "List.find P xs = Some x \<Longrightarrow> x \<in> set xs \<and> P x"
  by (induction xs) (auto split: if_splits)

lemma lastFiled_only:
  assumes "e \<in> set es" and "filedUnder fmt d c e"
    and "\<forall>x \<in> set es. e_callId x = c \<longrightarrow> x = e"
  shows "lastFiled fmt d c es = Some e"
proof -
  from assms(1,2) have "\<exists>x \<in> set (rev es). filedUnder fmt d c x" by auto
  then obtain x where x: "List.find (filedUnder fmt d c) (rev es) = Some x"
    by (cases "List.find (filedUnder fmt d c) (rev es)") (auto simp: find_None_iff)
  then have "x \<in> set es" and "filedUnder fmt d c x"
    using find_SomeD [OF x] by simp_all
  with assms(3) have "x = e" by (auto simp: filedUnder_def)
  with x show ?thesis by (simp add: lastFiled_def)
qed

text \<open>
  C10. An enrichment whose \<open>createdAt\<close> is missing, null or empty is skipped by
  \<open>saveEnrichments\<close>: the result (the store and the count, or the exception) is that of
  the same batch without it, and saving it alone leaves the store as it was and returns 0.
  The returned count never exceeds the number of enrichments that carry a \<open>createdAt\<close>,
  and when no enrichment of the batch for a call identifier carries one, the store holds for
  that identifier, in every daily file, exactly what it held before.
\<close>

theorem missing_createdAt_skipped:
  "saveEnrichments fmt now es s = saveEnrichments fmt now (filter hasCreatedAt es) s
   \<and> (\<not> hasCreatedAt e \<longrightarrow>
        saveEnrichments fmt now (pre @ e # post) s = saveEnrichments fmt now (pre @ post) s
        \<and> saveEnrichments fmt now [e] s = Inr (s, 0))
   \<and> (saveEnrichments fmt now es s = Inr (s', n) \<longrightarrow>
        n \<le> length (filter hasCreatedAt es)
        \<and> ((\<forall>x \<in> set es. e_callId x = cid \<longrightarrow> \<not> hasCreatedAt x) \<longrightarrow>
             (\<forall>d. lookupStore s' d cid = lookupStore s d cid)))"
proof (intro conjI impI allI)
  show "saveEnrichments fmt now es s = saveEnrichments fmt now (filter hasCreatedAt es) s"
    by (rule saveEnrichments_filter)
next
  assume e: "\<not> hasCreatedAt e"
  have "saveEnrichments fmt now (pre @ e # post) s
          = saveEnrichments fmt now (filter hasCreatedAt (pre @ e # post)) s"
    by (rule saveEnrichments_filter)
  also have "filter hasCreatedAt (pre @ e # post) = filter hasCreatedAt (pre @ post)"
    using e by simp
  also have "saveEnrichments fmt now (filter hasCreatedAt (pre @ post)) s
          = saveEnrichments fmt now (pre @ post) s"
    by (rule saveEnrichments_filter [symmetric])
  finally show "saveEnrichments fmt now (pre @ e # post) s = saveEnrichments fmt now (pre @ post) s" .
next
  assume e: "\<not> hasCreatedAt e"
  then show "saveEnrichments fmt now [e] s = Inr (s, 0)"
    by (auto simp: saveEnrichments_def hasCreatedAt_def split: option.splits)
next
  assume "saveEnrichments fmt now es s = Inr (s', n)"
  then show "n \<le> length (filter hasCreatedAt es)" by (rule saveEnrichments_count)
next
  fix d
  assume sv: "saveEnrichments fmt now es s = Inr (s', n)"
    and no: "\<forall>x \<in> set es. e_callId x = cid \<longrightarrow> \<not> hasCreatedAt x"
  have "\<forall>x \<in> set es. \<not> filedUnder fmt d cid x"
    using no by (auto simp: filedUnder_def hasCreatedAt_def split: option.splits)
  then have "lastFiled fmt d cid es = None" by (rule lastFiled_None)
  with saveEnrichments_lookup [OF sv, of d cid]
  show "lookupStore s' d cid = lookupStore s d cid" by simp
qed

lemma filedUnder_D:
  "filedUnder fmt d c x \<Longrightarrow> e_callId x = c \<and> (\<exists>t. e_createdAt x = Some t \<and> t \<noteq> [] \<and> fmt t = Some d)"
  by (cases "e_createdAt x") (simp_all add: filedUnder_def)

lemma lastFiled_other_date:
  assumes "d' \<noteq> d" and "fmt t = Some d"
    and "\<forall>x \<in> set es. e_callId x = cid \<longrightarrow> e_createdAt x = Some t"
  shows "lastFiled fmt d' cid es = None"
proof (rule lastFiled_None, rule ballI)
  fix x assume x: "x \<in> set es"
  show "\<not> filedUnder fmt d' cid x"
  proof
    assume "filedUnder fmt d' cid x"
    from filedUnder_D [OF this] obtain t' where
      "e_callId x = cid" "e_createdAt x = Some t'" "fmt t' = Some d'" by blast
    moreover from this(1) x assms(3) have "e_createdAt x = Some t" by blast
    ultimately have "fmt t = Some d'" by simp
    with assms(1,2) show False by simp
  qed
qed

lemma lastFiled_other_call:
  assumes "c' \<notin> e_callId ` set es"
  shows "lastFiled fmt d' c' es = None"
proof (rule lastFiled_None, rule ballI)
  fix x assume x: "x \<in> set es"
  show "\<not> filedUnder fmt d' c' x"
  proof
    assume "filedUnder fmt d' c' x"
    from filedUnder_D [OF this] have "e_callId x = c'" by blast
    with x assms show False by blast
  qed
qed

text \<open>
  C5. A call with identifier \<open>cid\<close> and creation time \<open>t\<close> (filed under the date key
  \<open>d\<close>) is enriched in two successive saves, each batch holding one enrichment for it,
  into a store that has no record of the call under another date. After the first save the
  file of \<open>d\<close> holds the first enrichment for \<open>cid\<close>; after the second it holds the
  second, with the second classification, and no other daily file holds a record for
  \<open>cid\<close>: one record, the later one. The records of every call identifier that the second
  batch does not name are what they were before it, in every daily file.
\<close>

theorem merge_safety:
  assumes first: "saveEnrichments fmt now1 es1 s = Inr (s1, n1)"
    and second: "saveEnrichments fmt now2 es2 s1 = Inr (s2, n2)"
    and date: "t \<noteq> []" "fmt t = Some d"
    and e1: "e1 \<in> set es1" "e_callId e1 = cid" "e_createdAt e1 = Some t"
    and e2: "e2 \<in> set es2" "e_callId e2 = cid" "e_createdAt e2 = Some t"
    and only1: "\<forall>x \<in> set es1. e_callId x = cid \<longrightarrow> x = e1"
    and only2: "\<forall>x \<in> set es2. e_callId x = cid \<longrightarrow> x = e2"
    and fresh: "\<forall>d'. d' \<noteq> d \<longrightarrow> lookupStore s d' cid = None"
  shows "lookupStore s1 d cid = Some (storedRecord now1 e1)
     \<and> lookupStore s2 d cid = Some (storedRecord now2 e2)
     \<and> e_classification (storedRecord now2 e2) = e_classification e2
     \<and> (\<forall>d'. d' \<noteq> d \<longrightarrow> lookupStore s2 d' cid = None)
     \<and> (\<forall>d' c'. c' \<notin> e_callId ` set es2 \<longrightarrow> lookupStore s2 d' c' = lookupStore s1 d' c')"
proof -
  have f1: "filedUnder fmt d cid e1" and f2: "filedUnder fmt d cid e2"
    using date e1 e2 by (simp_all add: filedUnder_def)
  have l1: "lastFiled fmt d cid es1 = Some e1" by (rule lastFiled_only [OF e1(1) f1 only1])
  have l2: "lastFiled fmt d cid es2 = Some e2" by (rule lastFiled_only [OF e2(1) f2 only2])
  have a: "lookupStore s1 d cid = Some (storedRecord now1 e1)"
    using saveEnrichments_lookup [OF first, of d cid] l1 by simp
  have b: "lookupStore s2 d cid = Some (storedRecord now2 e2)"
    using saveEnrichments_lookup [OF second, of d cid] l2 by simp
  have c: "e_classification (storedRecord now2 e2) = e_classification e2"
    by (simp add: storedRecord_def)
  have c1: "\<forall>x \<in> set es1. e_callId x = cid \<longrightarrow> e_createdAt x = Some t"
    using only1 e1(3) by blast
  have c2: "\<forall>x \<in> set es2. e_callId x = cid \<longrightarrow> e_createdAt x = Some t"
    using only2 e2(3) by blast
  have dd: "\<forall>d'. d' \<noteq> d \<longrightarrow> lookupStore s2 d' cid = None"
  proof (intro allI impI)
    fix d' assume ne: "d' \<noteq> d"
    have "lookupStore s1 d' cid = lookupStore s d' cid"
      using saveEnrichments_lookup [OF first, of d' cid]
        lastFiled_other_date [where fmt = fmt and t = t, OF ne date(2) c1] by simp
    moreover have "lookupStore s2 d' cid = lookupStore s1 d' cid"
      using saveEnrichments_lookup [OF second, of d' cid]
        lastFiled_other_date [where fmt = fmt and t = t, OF ne date(2) c2] by simp
    moreover have "lookupStore s d' cid = None" using fresh ne by blast
    ultimately show "lookupStore s2 d' cid = None" by simp
  qed
  have pres: "\<forall>d' c'. c' \<notin> e_callId ` set es2 \<longrightarrow> lookupStore s2 d' c' = lookupStore s1 d' c'"
  proof (intro allI impI)
    fix d' c' assume "c' \<notin> e_callId ` set es2"
    from lastFiled_other_call [OF this, of fmt d'] saveEnrichments_lookup [OF second, of d' c']
    show "lookupStore s2 d' c' = lookupStore s1 d' c'" by simp
  qed
  show ?thesis
    apply (rule conjI, rule a)
    apply (rule conjI, rule b)
    apply (rule conjI, rule c)
    apply (rule conjI, rule dd)
    apply (rule pres)
    done
qed

lemma isoDateKey_example: "isoDateKey ''2026-02-03T14:30:00.000Z'' = Some ''2026-02-03''"
  by (simp add: isoDateKey_def)

theorem merge_safety_witness:
  "\<exists>s1 s2. saveEnrichments isoDateKey ''2026-02-03T15:00:00.000Z'' [spamEnrichment ''call-5'']
              exampleStore = Inr (s1, 1)
     \<and> saveEnrichments isoDateKey ''2026-02-04T09:00:00.000Z'' [bookedEnrichment ''call-5'']
              s1 = Inr (s2, 1)
     \<and> lookupStore s2 ''2026-02-03'' ''call-5''
         = Some (storedRecord ''2026-02-04T09:00:00.000Z'' (bookedEnrichment ''call-5''))
     \<and> lookupStore s2 ''2026-02-03'' ''call-9'' = Some (spamEnrichment ''call-9'')
     \<and> lookupStore s2 ''2026-02-04'' ''call-5'' = None"
proof -
  let ?t = "''2026-02-03T14:30:00.000Z''"
  let ?d = "''2026-02-03''"
  let ?e1 = "spamEnrichment ''call-5''"
  let ?e2 = "bookedEnrichment ''call-5''"
  obtain s1 where first:
    "saveEnrichments isoDateKey ''2026-02-03T15:00:00.000Z'' [?e1] exampleStore = Inr (s1, 1)"
    and s1: "lookupStore s1 ?d ''call-9'' = Some (spamEnrichment ''call-9'')"
    by (simp add: saveEnrichments_def spamEnrichment_def isoDateKey_example lookupStore_def
        exampleStore_def map_add_def)
  obtain s2 where second:
    "saveEnrichments isoDateKey ''2026-02-04T09:00:00.000Z'' [?e2] s1 = Inr (s2, 1)"
    by (simp add: saveEnrichments_def bookedEnrichment_def isoDateKey_example)
  have fresh: "\<forall>d'. d' \<noteq> ?d \<longrightarrow> lookupStore exampleStore d' ''call-5'' = None"
    by (simp add: lookupStore_def exampleStore_def)
  have ids: "''call-9'' \<notin> e_callId ` set [?e2]" by (simp add: bookedEnrichment_def)
  from merge_safety [OF first second _ isoDateKey_example, of ?e1 "''call-5''" ?e2] fresh
  have "lookupStore s2 ?d ''call-5'' = Some (storedRecord ''2026-02-04T09:00:00.000Z'' ?e2)
     \<and> (\<forall>d'. d' \<noteq> ?d \<longrightarrow> lookupStore s2 d' ''call-5'' = None)
     \<and> (\<forall>d' c'. c' \<notin> e_callId ` set [?e2] \<longrightarrow> lookupStore s2 d' c' = lookupStore s1 d' c')"
    by (simp add: spamEnrichment_def bookedEnrichment_def)
  with first second s1 ids show ?thesis by auto
qed

theorem missing_createdAt_skipped_witness:
  "\<not> hasCreatedAt ((spamEnrichment ''call-5'')\<lparr>e_createdAt := None\<rparr>)
   \<and> saveEnrichments isoDateKey ''2026-02-03T15:00:00.000Z''
        [(spamEnrichment ''call-5'')\<lparr>e_createdAt := None\<rparr>] exampleStore
       = Inr (exampleStore, 0)
   \<and> saveEnrichments isoDateKey ''2026-02-03T15:00:00.000Z''
        [(spamEnrichment ''call-5'')\<lparr>e_createdAt := None\<rparr>, bookedEnrichment ''call-7'']
        exampleStore
       = saveEnrichments isoDateKey ''2026-02-03T15:00:00.000Z''
           [bookedEnrichment ''call-7''] exampleStore"
proof -
  let ?e = "(spamEnrichment ''call-5'')\<lparr>e_createdAt := None\<rparr>"
  have h: "\<not> hasCreatedAt ?e" by (simp add: hasCreatedAt_def)
  from missing_createdAt_skipped
    [of isoDateKey "''2026-02-03T15:00:00.000Z''" "[]" exampleStore ?e "[]"
        "[bookedEnrichment ''call-7'']"] h
  show ?thesis by simp
qed

end
